theory Spec2Isabelle
  imports Main "HOL-Library.Word"
begin

unbundle bit_operations_syntax

section \<open>Server time\<close>

text \<open>
  \<^verbatim>\<open>rel_time_t\<close> is the server's relative time: seconds since \<^verbatim>\<open>started\<close>, an
  \<^verbatim>\<open>unsigned int\<close> (the comment above \<^verbatim>\<open>current_time\<close> in memcached.c calls it a
  space saving "on systems where sizeof(time_t) > sizeof(unsigned int)").  A \<^verbatim>\<open>time_t\<close>
  value is an integer; the cast \<^verbatim>\<open>(rel_time_t)\<close> keeps its low 32 bits.  The globals
  \<^verbatim>\<open>started\<close> and \<^verbatim>\<open>current_time\<close> are passed as arguments.
\<close>

type_synonym rel_time_t = "32 word"



section \<open>The item store\<close>

text \<open>
  An item pointer is an address; the store keeps the items by address, the hash index
  from keys to addresses and the LRU chain (head first).  The functions of the item
  store (\<^verbatim>\<open>do_item_*\<close>) live outside memcached.c and are modelled from sections 3 and 4.1
  of the specification; the functions of memcached.c that call them follow below.
  Statistics counters and the verbose log are left out throughout.
\<close>

type_synonym addr = nat

record item =
  it_key :: string
  it_data :: string
  it_flags :: "32 word"
  it_exptime :: rel_time_t
  it_time :: rel_time_t
  it_refcount :: nat
  it_linked :: bool
  it_deleted :: bool
  it_stamp :: "(rel_time_t \<times> nat) option"

record cache =
  items :: "addr \<Rightarrow> item"
  assoc :: "string \<rightharpoonup> addr"
  lru :: "addr list"
  freed :: "addr set"
  current_time :: rel_time_t
  oldest_live :: rel_time_t

definition ITEM_update :: "addr \<Rightarrow> (item \<Rightarrow> item) \<Rightarrow> cache \<Rightarrow> cache" where
  "ITEM_update a f c = c\<lparr>items := (items c)(a := f (items c a))\<rparr>"

text \<open>
  Modelled from the spec: the release of an item's storage, which belongs to the
  allocator.  ``Storage is freed only when the reference count reaches zero and the
  item is unlinked.''
\<close>

definition item_free_if_unused :: "addr \<Rightarrow> cache \<Rightarrow> cache" where
  "item_free_if_unused a c =
     (if it_refcount (items c a) = 0 \<and> \<not> it_linked (items c a)
      then c\<lparr>freed := insert a (freed c)\<rparr> else c)"

text \<open>
  Modelled from the spec: \<^verbatim>\<open>do_item_deref\<close>, which is not in memcached.c.
  ``deref(item): decrements refcount; if it reaches zero and item is unlinked, frees
  storage.''
\<close>

definition do_item_deref :: "addr \<Rightarrow> cache \<Rightarrow> cache" where
  "do_item_deref a c =
     item_free_if_unused a (ITEM_update a (\<lambda>i. i\<lparr>it_refcount := it_refcount i - 1\<rparr>) c)"

text \<open>
  Modelled from the spec: \<^verbatim>\<open>do_item_unlink\<close>, which is not in memcached.c.
  ``unlink(item, reason): removes from index and LRU; clears linked bit; decrements
  refcount.''  An item that is not linked is left alone.
\<close>

definition do_item_unlink :: "addr \<Rightarrow> cache \<Rightarrow> cache" where
  "do_item_unlink a c =
     (if it_linked (items c a) then
        item_free_if_unused a
          (ITEM_update a (\<lambda>i. i\<lparr>it_linked := False, it_refcount := it_refcount i - 1\<rparr>)
            (c\<lparr>assoc := (assoc c)(it_key (items c a) := None),
               lru := removeAll a (lru c)\<rparr>))
      else c)"

text \<open>
  Modelled from the spec: \<^verbatim>\<open>do_item_link\<close>, which is not in memcached.c.
  ``link(item): inserts into index and LRU head; requires unlinked; sets linked bit;
  bumps refcount by 1.''
\<close>

definition do_item_link :: "addr \<Rightarrow> string \<Rightarrow> cache \<Rightarrow> cache" where
  "do_item_link a key c =
     ITEM_update a (\<lambda>i. i\<lparr>it_linked := True, it_refcount := it_refcount i + 1\<rparr>)
       (c\<lparr>assoc := (assoc c)(key \<mapsto> a), lru := a # lru c\<rparr>)"

text \<open>
  Modelled from the spec: \<^verbatim>\<open>do_item_replace\<close>, which is not in memcached.c.
  ``replace(old, new): atomically substitutes new for old under the same key; old is
  unlinked (refcount -1) and may survive while borrowed''; ``the new item is inserted
  at the head.''
\<close>

definition do_item_replace :: "addr \<Rightarrow> addr \<Rightarrow> string \<Rightarrow> cache \<Rightarrow> cache" where
  "do_item_replace old_it new_it key c = do_item_link new_it key (do_item_unlink old_it c)"

text \<open>
  Modelled from the spec: \<^verbatim>\<open>do_item_update\<close>, which is not in memcached.c.
  ``update(item): moves to LRU head; no-op if unlinked.''
\<close>

definition do_item_update :: "addr \<Rightarrow> cache \<Rightarrow> cache" where
  "do_item_update a c =
     (if it_linked (items c a) then c\<lparr>lru := a # removeAll a (lru c)\<rparr> else c)"

text \<open>
  Modelled from the spec: when an item counts as expired.  ``Expired means
  exptime != never && exptime <= current_time, or created <= oldest_live.''
\<close>

definition item_expired :: "cache \<Rightarrow> item \<Rightarrow> bool" where
  "item_expired c i \<longleftrightarrow>
     (it_exptime i \<noteq> 0 \<and> it_exptime i \<le> current_time c) \<or> it_time i \<le> oldest_live c"

text \<open>
  Modelled from the spec: \<^verbatim>\<open>do_item_get_notedeleted\<close>, which is not in memcached.c.
  ``get(key): returns the live item, ignoring expired and delete-locked items;
  increments the returned item's reference count''; through its third argument the
  caller learns that the key is hidden by a delete lock.  An expired item is absent
  and is unlinked when the lookup touches it (``expired items may remain linked until
  the next operation touches them'').  The result is the item found, the delete-lock
  flag and the store after the lookup.
\<close>

definition do_item_get_notedeleted :: "string \<Rightarrow> cache \<Rightarrow> addr option \<times> bool \<times> cache" where
  "do_item_get_notedeleted key c =
     (case assoc c key of
        None \<Rightarrow> (None, False, c)
      | Some a \<Rightarrow>
          if it_deleted (items c a) then (None, True, c)
          else if item_expired c (items c a) then (None, False, do_item_unlink a c)
          else (Some a, False, ITEM_update a (\<lambda>i. i\<lparr>it_refcount := it_refcount i + 1\<rparr>) c))"

text \<open>
  Modelled from the spec: \<^verbatim>\<open>do_item_get_nocheck\<close>, which is not in memcached.c: the
  lookup of \<^verbatim>\<open>get_allowing_delete_locked\<close>, which returns the item in the index whether
  or not it is delete-locked, pinned by a reference like every item a lookup returns.
\<close>

definition do_item_get_nocheck :: "string \<Rightarrow> cache \<Rightarrow> addr option \<times> cache" where
  "do_item_get_nocheck key c =
     (case assoc c key of
        None \<Rightarrow> (None, c)
      | Some a \<Rightarrow> (Some a, ITEM_update a (\<lambda>i. i\<lparr>it_refcount := it_refcount i + 1\<rparr>) c))"

text \<open>
  Modelled from the spec: \<^verbatim>\<open>do_item_alloc\<close>, which is not in memcached.c.
  ``alloc(key, flags, exptime, nbytes): allocate an unlinked item''; to make room the
  allocator may evict items from the LRU tail, and it may fail.  The allocator is
  outside the model: its choices are the argument \<open>(victims, slot)\<close>, the items it evicts
  and the storage it returns (\<open>None\<close> when it is out of memory).  The new item holds
  the caller's reference.
\<close>

definition do_item_alloc ::
  "string \<Rightarrow> 32 word \<Rightarrow> rel_time_t \<Rightarrow> nat \<Rightarrow> addr list \<times> addr option \<Rightarrow> cache \<Rightarrow>
     addr option \<times> cache" where
  "do_item_alloc key flags exptime nbytes alloc c =
     (let c1 = fold do_item_unlink (fst alloc) c in
      case snd alloc of
        None \<Rightarrow> (None, c1)
      | Some a \<Rightarrow>
          (Some a,
           c1\<lparr>items := (items c1)(a :=
                 \<lparr>it_key = key, it_data = replicate nbytes (CHR 0x00), it_flags = flags,
                  it_exptime = exptime, it_time = current_time c1, it_refcount = 1,
                  it_linked = False, it_deleted = False, it_stamp = None\<rparr>),
               freed := freed c1 - {a}\<rparr>))"

subsection \<open>The store decision of set, add and replace\<close>

datatype nread_comm = NREAD_ADD | NREAD_SET | NREAD_REPLACE

text \<open>
  \<^verbatim>\<open>do_store_item\<close> of memcached.c: the new item \<open>it\<close> is stored under \<open>key\<close> or not,
  according to the command.  The result is the flag \<^verbatim>\<open>stored\<close> and the store.
\<close>

definition do_store_item :: "addr \<Rightarrow> nread_comm \<Rightarrow> string \<Rightarrow> cache \<Rightarrow> bool \<times> cache" where
  "do_store_item it comm key c =
     (case do_item_get_notedeleted key c of (old_it, delete_locked, c1) \<Rightarrow>
        (case
           (if old_it \<noteq> None \<and> comm = NREAD_ADD then
              (False, old_it, do_item_update (the old_it) c1)
            else if old_it = None \<and> comm = NREAD_REPLACE then
              (False, old_it, c1)
            else if delete_locked \<and> (comm = NREAD_REPLACE \<or> comm = NREAD_ADD) then
              (False, old_it, c1)
            else
              (case (if delete_locked then do_item_get_nocheck key c1 else (old_it, c1))
               of (old_it', c2) \<Rightarrow>
                 (True, old_it',
                  (case old_it' of
                     Some o' \<Rightarrow> do_item_replace o' it key c2
                   | None \<Rightarrow> do_item_link it key c2))))
         of (stored, old_it'', c3) \<Rightarrow>
           (stored, (case old_it'' of Some o'' \<Rightarrow> do_item_deref o'' c3 | None \<Rightarrow> c3))))"

subsection \<open>Arithmetic on a stored value\<close>

text \<open>
  \<^verbatim>\<open>memcpy(buf + off, src, n)\<close> with \<open>n = length src\<close>.  A copy that runs past the end of
  the buffer shows as a buffer that has grown.
\<close>

definition memcpy_at :: "string \<Rightarrow> nat \<Rightarrow> string \<Rightarrow> string" where
  "memcpy_at buf off src = take off buf @ src @ drop (off + length src) buf"


text \<open>The output of \<^verbatim>\<open>snprintf(buf, 32, "%u", value)\<close>: the decimal digits of the value.\<close>

definition digit_char :: "nat \<Rightarrow> char" where
  "digit_char d = ''0123456789'' ! d"

function decimal :: "nat \<Rightarrow> string" where
  "decimal n = (if n < 10 then [digit_char n] else decimal (n div 10) @ [digit_char (n mod 10)])"
  by pat_completeness auto
termination
  by (relation "measure id") auto

declare decimal.simps [simp del]

text \<open>
  Modelled from the spec: \<^verbatim>\<open>item_strtoul\<close>, which is not in memcached.c.  ``Parse its
  value as a decimal unsigned integer; treat any non-digit prefix as zero and saturate
  on overflow.''  The leading digits are read; the value is cut off at the largest
  \<^verbatim>\<open>uint32_t\<close>, the type of the variable that receives it.
\<close>

definition is_digit :: "char \<Rightarrow> bool" where
  "is_digit ch \<longleftrightarrow> 48 \<le> (of_char ch :: nat) \<and> (of_char ch :: nat) \<le> 57"

fun digits_value :: "nat \<Rightarrow> string \<Rightarrow> nat" where
  "digits_value acc [] = acc"
| "digits_value acc (ch # cs) =
     (if is_digit ch then digits_value (acc * 10 + (of_char ch - 48)) cs else acc)"

definition item_strtoul :: "item \<Rightarrow> 32 word" where
  "item_strtoul i = word_of_nat (min (digits_value 0 (it_data i)) (2 ^ 32 - 1))"

text \<open>
  The accessors of an item that memcached.c uses to rewrite a value in place:
  \<^verbatim>\<open>ITEM_set_nbytes\<close> sets the length of the value, \<^verbatim>\<open>item_memcpy_to\<close> copies bytes into
  the value at an offset, \<^verbatim>\<open>do_try_item_stamp\<close> notes the time and the client's address
  in the item.
\<close>

definition ITEM_set_nbytes :: "nat \<Rightarrow> item \<Rightarrow> item" where
  "ITEM_set_nbytes n i = i\<lparr>it_data := take n (it_data i @ replicate n (CHR 0x00))\<rparr>"

definition item_memcpy_to :: "nat \<Rightarrow> string \<Rightarrow> nat \<Rightarrow> item \<Rightarrow> item" where
  "item_memcpy_to off buf n i = i\<lparr>it_data := memcpy_at (it_data i) off (take n buf)\<rparr>"

definition do_try_item_stamp :: "rel_time_t \<Rightarrow> nat \<Rightarrow> item \<Rightarrow> item" where
  "do_try_item_stamp now client i = i\<lparr>it_stamp := Some (now, client)\<rparr>"

text \<open>
  \<^verbatim>\<open>do_add_delta\<close> of memcached.c.  \<^verbatim>\<open>item_need_realloc\<close> (whether the new length needs
  other storage) belongs to the allocator and is the argument \<open>need_realloc\<close>; \<open>alloc\<close>
  is what the allocator does if it is asked for a new item.  The result is the reply
  and the store.
\<close>

definition do_add_delta ::
  "string \<Rightarrow> int \<Rightarrow> 32 word \<Rightarrow> nat \<Rightarrow> (item \<Rightarrow> nat \<Rightarrow> bool) \<Rightarrow> addr list \<times> addr option \<Rightarrow>
     cache \<Rightarrow> string \<times> cache" where
  "do_add_delta key incr delta client need_realloc alloc s =
     (case do_item_get_notedeleted key s of
        (None, dl, s1) \<Rightarrow> (''NOT_FOUND'', s1)
      | (Some it, dl, s1) \<Rightarrow>
          (let now = current_time s1;
               value0 = item_strtoul (items s1 it);
               value = (if incr \<noteq> 0 then value0 + delta
                        else if delta \<ge> value0 then 0 else value0 - delta);
               buf = decimal (unat value);
               res = length buf
           in if need_realloc (items s1 it) res \<or> it_refcount (items s1 it) > 1 then
                (case do_item_alloc key (it_flags (items s1 it)) (it_exptime (items s1 it))
                        res alloc s1 of
                   (None, s2) \<Rightarrow> (''SERVER_ERROR out of memory'', do_item_deref it s2)
                 | (Some new_it, s2) \<Rightarrow>
                     (let s3 = ITEM_update new_it (item_memcpy_to 0 buf res) s2;
                          s4 = do_item_replace it new_it key s3;
                          s5 = do_item_deref new_it s4
                      in (buf, do_item_deref it s5)))
              else
                (let s2 = ITEM_update it (ITEM_set_nbytes res) s1;
                     s3 = ITEM_update it (item_memcpy_to 0 buf res) s2;
                     s4 = do_item_update it s3;
                     s5 = ITEM_update it (do_try_item_stamp now client) s4
                 in (buf, do_item_deref it s5))))"

text \<open>
  The arithmetic of \<^verbatim>\<open>do_add_delta\<close> by itself (the value it computes from the parsed
  value and the delta), for the statements below.
\<close>

definition add_delta_value :: "int \<Rightarrow> 32 word \<Rightarrow> 32 word \<Rightarrow> 32 word" where
  "add_delta_value incr v delta =
     (if incr \<noteq> 0 then v + delta else if delta \<ge> v then 0 else v - delta)"

section \<open>Connections\<close>

text \<open>
  The states of a connection.  \<^verbatim>\<open>conn_bp_header_size_unknown\<close> is the state of the binary
  protocol that \<^verbatim>\<open>transmit\<close> names; the binary protocol itself is outside memcached.c.
\<close>

datatype conn_states =
  conn_listening | conn_read | conn_write | conn_nread | conn_swallow | conn_closing |
  conn_mwrite | conn_bp_header_size_unknown

text \<open>
  An \<^verbatim>\<open>iovec\<close> is modelled by the bytes at its base (\<open>None\<close> for a null base) and its
  length; a \<^verbatim>\<open>msghdr\<close> by the entries \<^verbatim>\<open>msg_iov[0 .. msg_iovlen - 1]\<close> of its slice
  of the connection's iovec array (\<^verbatim>\<open>msg_iovlen\<close> is the length of the list).
\<close>

record iovec =
  iov_base :: "string option"
  iov_len :: nat

record msghdr =
  msg_iov :: "iovec list"
  msg_flags :: nat
  msg_controllen :: nat

text \<open>
  The constants of memcached.h that memcached.c uses; the header is not part of the
  source, so they are parameters.  \<open>IOV_LIST_SZ\<close> stands for
  \<^verbatim>\<open>CONN_BUFFER_DATA_SZ / sizeof(struct iovec)\<close>.
\<close>

record limits =
  DATA_BUFFER_SIZE :: nat
  WRITE_BUFFER_HIGHWAT :: nat
  ITEM_LIST_INITIAL :: nat
  ITEM_LIST_HIGHWAT :: nat
  MSG_LIST_INITIAL :: nat
  MSG_LIST_HIGHWAT :: nat
  IOV_MAX :: nat
  IOV_LIST_SZ :: nat
  CONN_BUFFER_DATA_SZ :: int

definition UDP_MAX_PAYLOAD_SIZE :: nat where
  "UDP_MAX_PAYLOAD_SIZE = 1400"

definition UDP_HEADER_SIZE :: nat where
  "UDP_HEADER_SIZE = 8"

text \<open>
  The fields of \<^verbatim>\<open>conn\<close> that the modelled functions use.  Buffers are byte lists:
  \<open>rbuf\<close> is \<open>None\<close> for a null read buffer, \<open>rcurr\<close> and \<open>wcurr\<close> are offsets into
  \<open>rbuf\<close> and \<open>wbuf\<close>.  \<open>msglist\<close> is the array of message headers by index, of
  which the first \<open>msgused\<close> are in use.  \<open>ilist\<close> holds the \<^verbatim>\<open>ileft\<close> pinned items from \<^verbatim>\<open>icurr\<close> on.
  \<open>riov\<close> and \<open>iov\<close> record whether the two iovec arrays are allocated.  \<open>pool\<close> is
  not a field of the C structure: it lists the outcomes of the coming requests to the
  buffer pool (\<open>True\<close>: granted), which is outside memcached.c; when the list is used up
  every request fails.
\<close>

record conn =
  state :: conn_states
  write_and_go :: conn_states
  udp :: bool
  binary :: bool
  rbuf :: "string option"
  rcurr :: int
  rsize :: int
  rbytes :: int
  wbuf :: string
  wcurr :: nat
  wsize :: nat
  wbytes :: nat
  sbytes :: int
  item :: "addr option"
  item_comm :: nread_comm
  update_key :: string
  crlf :: string
  ilist :: "addr list"
  isize :: nat
  msglist :: "nat \<Rightarrow> msghdr"
  msgsize :: nat
  msgused :: nat
  msgcurr :: nat
  msgbytes :: nat
  iov :: bool
  iovsize :: nat
  iovused :: nat
  riov :: bool
  riov_size :: nat
  hdrbuf :: bool
  hdrsize :: nat
  request_id :: nat
  ev_flags :: nat
  write_and_free :: bool
  bucket :: int
  gen :: int
  pool :: "bool list"

definition pool_request :: "conn \<Rightarrow> bool \<times> conn" where
  "pool_request c = (case pool c of [] \<Rightarrow> (False, c) | b # bs \<Rightarrow> (b, c\<lparr>pool := bs\<rparr>))"

subsection \<open>The list of outgoing messages\<close>

text \<open>\<^verbatim>\<open>ensure_iov_space\<close>: 0 when there is room for one more iovec, -1 otherwise.\<close>

definition ensure_iov_space :: "limits \<Rightarrow> conn \<Rightarrow> int \<times> conn" where
  "ensure_iov_space L c =
     (let c1 = (if iovsize c = 0 then
                  (case pool_request c of (ok, c') \<Rightarrow>
                     if ok then c'\<lparr>iov := True, iovsize := IOV_LIST_SZ L\<rparr>
                     else c'\<lparr>iov := False\<rparr>)
                else c)
      in if iovused c1 \<ge> iovsize c1 then (-1, c1) else (0, c1))"

text \<open>
  One pass of the loop of \<^verbatim>\<open>add_iov\<close> from the call of \<^verbatim>\<open>ensure_iov_space\<close> on: the
  fragment, cut to what the message may still take when \<open>limit_to_mtu\<close> holds
  (\<open>fragment_cut\<close> is the variable \<^verbatim>\<open>leftover\<close>), is appended to the last message
  (\<open>msghdr_append\<close>, which also marks the first iovec of a response line).  The result is the return code, the connection, what
  is left over of the fragment and its bytes.  Lengths are natural numbers: on a
  message that is limited, \<^verbatim>\<open>msgbytes\<close> does not exceed the limit, and the length that
  remains after the cut is not negative.
\<close>

definition fragment_cut :: "bool \<Rightarrow> nat \<Rightarrow> conn \<Rightarrow> nat" where
  "fragment_cut limit_to_mtu len c =
     (if limit_to_mtu \<and> len + msgbytes c > UDP_MAX_PAYLOAD_SIZE
      then len + msgbytes c - UDP_MAX_PAYLOAD_SIZE else 0)"

definition msghdr_append :: "bool \<Rightarrow> iovec \<Rightarrow> msghdr \<Rightarrow> msghdr" where
  "msghdr_append mark v m =
     (if mark \<and> msg_flags m = 0
      then m\<lparr>msg_iov := msg_iov m @ [v], msg_flags := 1, msg_controllen := length (msg_iov m)\<rparr>
      else m\<lparr>msg_iov := msg_iov m @ [v]\<rparr>)"

definition add_iov_fragment ::
  "limits \<Rightarrow> bool \<Rightarrow> string option \<Rightarrow> nat \<Rightarrow> bool \<Rightarrow> conn \<Rightarrow>
     int \<times> conn \<times> nat \<times> string option" where
  "add_iov_fragment L limit_to_mtu buf len is_start c =
     (case ensure_iov_space L c of (rc, c1) \<Rightarrow>
        if rc \<noteq> 0 then (-1, c1, len, buf)
        else
          (0,
           c1\<lparr>msglist := (msglist c1)(msgused c1 - 1 :=
                 msghdr_append (udp c1 \<and> is_start)
                   \<lparr>iov_base = map_option (take (len - fragment_cut limit_to_mtu len c1)) buf,
                    iov_len = len - fragment_cut limit_to_mtu len c1\<rparr>
                   (msglist c1 (msgused c1 - 1))),
              msgbytes := msgbytes c1 + (len - fragment_cut limit_to_mtu len c1),
              iovused := iovused c1 + 1\<rparr>,
           fragment_cut limit_to_mtu len c1,
           map_option (drop (len - fragment_cut limit_to_mtu len c1)) buf))"

text \<open>
  \<^verbatim>\<open>add_msghdr\<close>.  For a datagram connection it ends with
  \<^verbatim>\<open>add_iov(c, NULL, UDP_HEADER_SIZE, false)\<close>, which on the new, empty message is one
  pass of the loop that neither starts another message nor cuts the fragment
  (\<open>add_msghdr_calls_add_iov\<close> below proves that this is what the call does).
\<close>

definition add_msghdr :: "limits \<Rightarrow> conn \<Rightarrow> int \<times> conn" where
  "add_msghdr L c =
     (case (if msgsize c = msgused c then
              (case pool_request c of (ok, c') \<Rightarrow>
                 if ok then (True, c'\<lparr>msgsize := msgsize c' * 2\<rparr>) else (False, c'))
            else (True, c))
      of (grown, c1) \<Rightarrow>
        if \<not> grown then (-1, c1)
        else
          (case ensure_iov_space L
                  (c1\<lparr>msglist := (msglist c1)
                      (msgused c1 := \<lparr>msg_iov = [], msg_flags = 0, msg_controllen = 0\<rparr>)\<rparr>)
           of (rc, c3) \<Rightarrow>
             if rc \<noteq> 0 then (-1, c3)
             else if udp c3 then
               (case add_iov_fragment L True None UDP_HEADER_SIZE False
                       (c3\<lparr>msgbytes := 0, msgused := msgused c3 + 1\<rparr>)
                of (rc', c5, leftover, buf') \<Rightarrow> (rc', c5))
             else (0, c3\<lparr>msgbytes := 0, msgused := msgused c3 + 1\<rparr>)))"

text \<open>
  The room left in the iovec array: \<^verbatim>\<open>add_iov\<close> ends because every pass takes one
  entry, and \<^verbatim>\<open>ensure_iov_space\<close> fails when none is left.
\<close>

definition iov_room :: "limits \<Rightarrow> conn \<Rightarrow> nat" where
  "iov_room L c = (if iovsize c = 0 then IOV_LIST_SZ L else iovsize c) - iovused c"

lemma iov_room_ensure_iov_space:
  "ensure_iov_space L c = (rc, c1) \<Longrightarrow>
   iov_room L c1 \<le> iov_room L c \<and> iovused c1 = iovused c \<and>
   (rc = 0 \<longrightarrow> iovused c1 < iovsize c1)"
  by (auto simp: ensure_iov_space_def iov_room_def pool_request_def Let_def
        split: if_splits list.splits prod.splits)

lemma iov_room_add_iov_fragment:
  "add_iov_fragment L lim buf len st c = (rc, c2, lo, b) \<Longrightarrow>
   iov_room L c2 \<le> iov_room L c \<and> (rc = 0 \<longrightarrow> iov_room L c2 < iov_room L c)"
proof -
  assume a: "add_iov_fragment L lim buf len st c = (rc, c2, lo, b)"
  obtain r1 c1 where e: "ensure_iov_space L c = (r1, c1)" by (cases "ensure_iov_space L c")
  note f = iov_room_ensure_iov_space [OF e]
  show ?thesis
  proof (cases "r1 = 0")
    case False
    then show ?thesis using a e f by (auto simp: add_iov_fragment_def)
  next
    case True
    then have u: "iovused c1 < iovsize c1" using f by simp
    have "iov_room L c2 = iov_room L c1 - 1" "rc = 0"
      using a e True by (auto simp: add_iov_fragment_def Let_def iov_room_def)
    moreover have "0 < iov_room L c1" using u by (simp add: iov_room_def)
    ultimately show ?thesis using f by linarith
  qed
qed

lemma iov_room_add_msghdr:
  "iov_room L (snd (add_msghdr L c)) \<le> iov_room L c"
proof -
  obtain grown c1 where g:
    "(if msgsize c = msgused c then
        (case pool_request c of (ok, c') \<Rightarrow>
           if ok then (True, c'\<lparr>msgsize := msgsize c' * 2\<rparr>) else (False, c'))
      else (True, c)) = (grown, c1)"
    by (cases "(if msgsize c = msgused c then
        (case pool_request c of (ok, c') \<Rightarrow>
           if ok then (True, c'\<lparr>msgsize := msgsize c' * 2\<rparr>) else (False, c'))
      else (True, c))")
  have r1: "iov_room L c1 = iov_room L c"
    using g by (auto simp: pool_request_def iov_room_def split: if_splits list.splits)
  let ?c2 = "c1\<lparr>msglist := (msglist c1)
      (msgused c1 := \<lparr>msg_iov = [], msg_flags = 0, msg_controllen = 0\<rparr>)\<rparr>"
  obtain rc c3 where e: "ensure_iov_space L ?c2 = (rc, c3)"
    by (cases "ensure_iov_space L ?c2")
  have r2: "iov_room L ?c2 = iov_room L c1" by (simp add: iov_room_def)
  have r3: "iov_room L c3 \<le> iov_room L c"
    using iov_room_ensure_iov_space [OF e] r1 r2 by simp
  let ?c4 = "c3\<lparr>msgbytes := 0, msgused := msgused c3 + 1\<rparr>"
  have r4: "iov_room L ?c4 = iov_room L c3" by (simp add: iov_room_def)
  obtain rc' c5 lo b where f:
    "add_iov_fragment L True None UDP_HEADER_SIZE False ?c4 = (rc', c5, lo, b)"
    by (cases "add_iov_fragment L True None UDP_HEADER_SIZE False ?c4")
  have r5: "iov_room L c5 \<le> iov_room L c"
    using iov_room_add_iov_fragment [OF f] r4 r3 by simp
  have "snd (add_msghdr L c) = c1 \<or> snd (add_msghdr L c) = c3 \<or>
      snd (add_msghdr L c) = ?c4 \<or> snd (add_msghdr L c) = c5"
    unfolding add_msghdr_def g prod.case e f by simp
  then show ?thesis using r1 r3 r4 r5 by auto
qed

text \<open>
  \<^verbatim>\<open>add_iov\<close>: the fragment is appended to the last message, a new message being
  started when the last one is full; the return value of \<^verbatim>\<open>add_msghdr\<close> is not looked
  at.  \<^verbatim>\<open>limit_to_mtu\<close> is set at the head of each pass.
\<close>

function add_iov :: "limits \<Rightarrow> string option \<Rightarrow> nat \<Rightarrow> bool \<Rightarrow> conn \<Rightarrow> int \<times> conn" where
  "add_iov L buf len is_start c =
     (let limit_to_mtu = (udp c \<or> msgused c = 1);
          c1 = (if length (msg_iov (msglist c (msgused c - 1))) = IOV_MAX L \<or>
                   (limit_to_mtu \<and> msgbytes c \<ge> UDP_MAX_PAYLOAD_SIZE)
                then snd (add_msghdr L c) else c)
      in case add_iov_fragment L limit_to_mtu buf len is_start c1 of
           (rc, c2, leftover, buf') \<Rightarrow>
             if rc \<noteq> 0 then (-1, c2)
             else if leftover > 0 then add_iov L buf' leftover False c2
             else (0, c2))"
  by pat_completeness auto
termination
proof (relation "measure (\<lambda>(L, buf, len, is_start, c). iov_room L c)", goal_cases)
  case 1
  show ?case by simp
next
  case (2 L buf len is_start c lim c1 rc y c2 ya leftover buf')
  have f: "add_iov_fragment L lim buf len is_start c1 = (rc, c2, leftover, buf')"
    using 2(3,4,5) by simp
  have "iov_room L c2 < iov_room L c1"
    using iov_room_add_iov_fragment [OF f] 2(6) by simp
  moreover have "iov_room L c1 \<le> iov_room L c"
    unfolding 2(2) using iov_room_add_msghdr [of L c] by simp
  ultimately show ?case by simp
qed

declare add_iov.simps [simp del]

text \<open>
  \<^verbatim>\<open>conn_shrink\<close>: between requests, the buffers of a stream connection are returned
  or cut back to their initial sizes.  The header pool of a binary connection
  (\<^verbatim>\<open>bp_shrink_hdr_pool\<close>) is not modelled.
\<close>

definition conn_shrink :: "limits \<Rightarrow> conn \<Rightarrow> conn" where
  "conn_shrink L c =
     (if udp c then c
      else
        let c1 = (if rbytes c = 0 \<and> rbuf c \<noteq> None
                  then c\<lparr>rbuf := None, rcurr := 0, rsize := 0\<rparr>
                  else c\<lparr>rbuf := map_option
                              (\<lambda>b. memcpy_at b 0 (take (nat (rbytes c)) (drop (nat (rcurr c)) b)))
                              (rbuf c),
                          rcurr := 0\<rparr>);
            c2 = (if wsize c1 > WRITE_BUFFER_HIGHWAT L then
                    (case pool_request c1 of (ok, c') \<Rightarrow>
                       if ok then c'\<lparr>wbuf := take (DATA_BUFFER_SIZE L) (wbuf c'),
                                     wsize := DATA_BUFFER_SIZE L\<rparr>
                       else c')
                  else c1);
            c3 = (if isize c2 > ITEM_LIST_HIGHWAT L then
                    (case pool_request c2 of (ok, c') \<Rightarrow>
                       if ok then c'\<lparr>isize := ITEM_LIST_INITIAL L\<rparr> else c')
                  else c2);
            c4 = (if msgsize c3 > MSG_LIST_HIGHWAT L then
                    (case pool_request c3 of (ok, c') \<Rightarrow>
                       if ok then c'\<lparr>msgsize := MSG_LIST_INITIAL L\<rparr> else c')
                  else c3);
            c5 = (if riov c4 then c4\<lparr>riov := False, riov_size := 0\<rparr> else c4)
        in (if iov c5 then c5\<lparr>iov := False, iovsize := 0\<rparr> else c5))"

text \<open>
  \<^verbatim>\<open>conn_set_state\<close>.  The step of the incremental rehash
  (\<^verbatim>\<open>assoc_move_next_bucket\<close>) does not change what the index maps and is not modelled.
\<close>

definition conn_set_state :: "limits \<Rightarrow> conn_states \<Rightarrow> conn \<Rightarrow> conn" where
  "conn_set_state L st c =
     (if st \<noteq> state c then
        (if st = conn_read
         then (conn_shrink L c)\<lparr>msgcurr := 0, msgused := 0, iovused := 0\<rparr>
         else c)\<lparr>state := st\<rparr>
      else c)"

text \<open>\<^verbatim>\<open>out_string\<close>: the one-line reply.\<close>

definition out_string :: "limits \<Rightarrow> string \<Rightarrow> conn \<Rightarrow> conn" where
  "out_string L str c =
     (let c1 = c\<lparr>msgused := 0, iovused := 0\<rparr>;
          str' = (if length str + 2 > wsize c1
                  then ''SERVER_ERROR output line too long'' else str);
          len = length str';
          c2 = c1\<lparr>wbuf := memcpy_at (wbuf c1) 0 str'\<rparr>;
          c3 = c2\<lparr>wbuf := memcpy_at (wbuf c2) len [CHR 0x0D, CHR 0x0A]\<rparr>;
          c4 = c3\<lparr>wbytes := len + 2, wcurr := 0\<rparr>
      in (conn_set_state L conn_write c4)\<lparr>write_and_go := conn_read\<rparr>)"

text \<open>
  \<^verbatim>\<open>complete_nread\<close>: the value of a set, add or replace has been read.
  \<^verbatim>\<open>store_item\<close> and \<^verbatim>\<open>item_deref\<close> take the cache lock and call \<^verbatim>\<open>do_store_item\<close>
  and \<^verbatim>\<open>do_item_deref\<close>.  The connection holds an item here (\<open>item c\<close> is not null).
\<close>

definition complete_nread :: "limits \<Rightarrow> conn \<times> cache \<Rightarrow> conn \<times> cache" where
  "complete_nread L cs =
     (case cs of (c, s) \<Rightarrow>
        (case item c of
           None \<Rightarrow> (c, s)
         | Some it \<Rightarrow>
             (case
                (if crlf c \<noteq> [CHR 0x0D, CHR 0x0A]
                 then (out_string L ''CLIENT_ERROR bad data chunk'' c, s)
                 else
                   (case do_store_item it (item_comm c) (update_key c) s of (stored, s1) \<Rightarrow>
                      if stored then (out_string L ''STORED'' c, s1)
                      else (out_string L ''NOT_STORED'' c, s1)))
              of (c1, s2) \<Rightarrow> (c1\<lparr>item := None\<rparr>, do_item_deref it s2))))"

subsection \<open>Datagram headers\<close>

text \<open>
  \<^verbatim>\<open>build_udp_headers\<close>.  The eight bytes of the header of message \<open>i\<close> of \<open>n\<close>; a
  byte (\<^verbatim>\<open>unsigned char\<close>) keeps the low eight bits of what is stored in it.
\<close>

definition udp_header :: "nat \<Rightarrow> nat \<Rightarrow> nat \<Rightarrow> nat \<Rightarrow> string" where
  "udp_header rid i n offset =
     map char_of [rid div 256, rid mod 256, i div 256, i mod 256, n div 256, n mod 256,
                  offset div 256, offset mod 256]"

text \<open>
  One pass of the loop of \<^verbatim>\<open>build_udp_headers\<close>, for message \<open>i\<close>: the first iovec of
  the message becomes the header; \<open>offset\<close> is the number of bytes before the first
  response line of the message, when the message has one.  (On a message without an
  iovec the C code writes the iovec that follows the slice of the message, which the
  message does not send.)
\<close>

definition build_udp_header_at :: "nat \<Rightarrow> conn \<Rightarrow> conn" where
  "build_udp_header_at i c =
     (let m = msglist c i;
          lens = (case msg_iov m of
                    [] \<Rightarrow> []
                  | v # vs \<Rightarrow> UDP_HEADER_SIZE # map iov_len vs);
          offset = (if msg_flags m \<noteq> 0 then sum_list (take (msg_controllen m) lens) else 0);
          hdr = udp_header (request_id c) i (msgused c) offset;
          iov' = (case msg_iov m of
                    [] \<Rightarrow> []
                  | v # vs \<Rightarrow> \<lparr>iov_base = Some hdr, iov_len = UDP_HEADER_SIZE\<rparr> # vs);
          m' = (if msg_flags m \<noteq> 0
                then m\<lparr>msg_iov := iov', msg_flags := 0, msg_controllen := 0\<rparr>
                else m\<lparr>msg_iov := iov'\<rparr>)
      in c\<lparr>msglist := (msglist c)(i := m')\<rparr>)"

definition build_udp_headers :: "conn \<Rightarrow> int \<times> conn" where
  "build_udp_headers c =
     (case (if msgused c > hdrsize c then
              (case pool_request c of (ok, c') \<Rightarrow>
                 if ok then (True, c'\<lparr>hdrbuf := True, hdrsize := msgused c' * 2\<rparr>)
                 else (False, c'))
            else (True, c))
      of (ok, c1) \<Rightarrow>
        if \<not> ok then (-1, c1)
        else (0, fold build_udp_header_at [0..<msgused c1] c1))"

text \<open>The bytes of a message as \<^verbatim>\<open>sendmsg\<close> sends them: its iovecs in order.\<close>

definition iovec_bytes :: "iovec \<Rightarrow> string" where
  "iovec_bytes v = (case iov_base v of None \<Rightarrow> [] | Some b \<Rightarrow> take (iov_len v) b)"

definition msg_bytes :: "msghdr \<Rightarrow> string" where
  "msg_bytes m = concat (map iovec_bytes (msg_iov m))"

definition msg_total :: "msghdr \<Rightarrow> nat" where
  "msg_total m = sum_list (map iov_len (msg_iov m))"

subsection \<open>Sending\<close>


definition EV_WRITE_PERSIST :: nat where
  "EV_WRITE_PERSIST = 20"

definition update_event :: "bool \<times> bool \<Rightarrow> nat \<Rightarrow> conn \<Rightarrow> bool \<times> conn" where
  "update_event ev new_flags c =
     (if ev_flags c = new_flags then (True, c)
      else if \<not> fst ev then (False, c)
      else if \<not> snd ev then (False, c\<lparr>ev_flags := new_flags\<rparr>)
      else (True, c\<lparr>ev_flags := new_flags\<rparr>))"

text \<open>
  What \<^verbatim>\<open>sendmsg\<close> returns: the number of bytes written (zero included), -1 with
  \<^verbatim>\<open>EAGAIN\<close> or \<^verbatim>\<open>EWOULDBLOCK\<close>, or -1 with another error.
\<close>

datatype send_result = Sent nat | Send_again | Send_error

datatype transmit_result =
  TRANSMIT_COMPLETE | TRANSMIT_INCOMPLETE | TRANSMIT_SOFT_ERROR | TRANSMIT_HARD_ERROR

text \<open>
  The loop of \<^verbatim>\<open>transmit\<close> that drops the iovecs \<^verbatim>\<open>sendmsg\<close> has written in full, and
  the adjustment of the one written in part.
\<close>

fun transmit_written :: "nat \<Rightarrow> iovec list \<Rightarrow> iovec list" where
  "transmit_written res [] = []"
| "transmit_written res (v # vs) =
     (if res \<ge> iov_len v then transmit_written (res - iov_len v) vs
      else if res > 0
      then v\<lparr>iov_base := map_option (drop res) (iov_base v), iov_len := iov_len v - res\<rparr> # vs
      else v # vs)"

text \<open>
  The end of \<^verbatim>\<open>transmit\<close> on a real error (\<^verbatim>\<open>sendmsg\<close> returned 0, or -1 with an error
  that is not \<^verbatim>\<open>EAGAIN\<close> or \<^verbatim>\<open>EWOULDBLOCK\<close>).
\<close>

definition transmit_failed :: "limits \<Rightarrow> conn \<Rightarrow> transmit_result \<times> conn" where
  "transmit_failed L c =
     (TRANSMIT_HARD_ERROR,
      if binary c then
        (if udp c then c\<lparr>state := conn_bp_header_size_unknown\<rparr>
         else c\<lparr>state := conn_closing\<rparr>)
      else if udp c then conn_set_state L conn_read c
      else conn_set_state L conn_closing c)"

text \<open>\<^verbatim>\<open>transmit\<close>.  \<open>sent\<close> is what \<^verbatim>\<open>sendmsg\<close> returns if it is called.\<close>

definition transmit ::
  "limits \<Rightarrow> send_result \<Rightarrow> bool \<times> bool \<Rightarrow> conn \<Rightarrow> transmit_result \<times> conn" where
  "transmit L sent ev c =
     (let c1 = (if msgcurr c < msgused c \<and> msg_iov (msglist c (msgcurr c)) = []
                then c\<lparr>msgcurr := msgcurr c + 1\<rparr> else c)
      in if msgcurr c1 < msgused c1 then
           (case sent of
              Sent res \<Rightarrow>
                (if res > 0 then
                   (TRANSMIT_INCOMPLETE,
                    c1\<lparr>msglist := (msglist c1)(msgcurr c1 :=
                         (msglist c1 (msgcurr c1))\<lparr>msg_iov :=
                            transmit_written res (msg_iov (msglist c1 (msgcurr c1)))\<rparr>)\<rparr>)
                 else transmit_failed L c1)
            | Send_again \<Rightarrow>
                (case update_event ev EV_WRITE_PERSIST c1 of (ok, c2) \<Rightarrow>
                   if \<not> ok then
                     (TRANSMIT_HARD_ERROR,
                      if binary c2 then c2\<lparr>state := conn_closing\<rparr>
                      else conn_set_state L conn_closing c2)
                   else (TRANSMIT_SOFT_ERROR, c2))
            | Send_error \<Rightarrow> transmit_failed L c1)
         else (TRANSMIT_COMPLETE, c1))"

subsection \<open>The state machine\<close>

text \<open>
  One pass of the loop of \<^verbatim>\<open>drive_machine\<close> in the states \<^verbatim>\<open>conn_mwrite\<close> and
  \<^verbatim>\<open>conn_write\<close>.  The result is the connection, the store, and the flag \<^verbatim>\<open>stop\<close>.
\<close>

definition drive_machine_mwrite ::
  "limits \<Rightarrow> send_result \<Rightarrow> bool \<times> bool \<Rightarrow> conn \<times> cache \<Rightarrow> (conn \<times> cache) \<times> bool" where
  "drive_machine_mwrite L sent ev cs =
     (case cs of (c, s) \<Rightarrow>
        (case transmit L sent ev c of
           (TRANSMIT_COMPLETE, c1) \<Rightarrow>
             (case (if state c1 = conn_mwrite then
                      (conn_set_state L conn_read (c1\<lparr>ilist := []\<rparr>),
                       fold do_item_deref (ilist c1) s)
                    else if state c1 = conn_write then
                      (conn_set_state L (write_and_go c1) (c1\<lparr>write_and_free := False\<rparr>), s)
                    else (conn_set_state L conn_closing c1, s))
              of (c2, s2) \<Rightarrow> ((c2\<lparr>wcurr := 0, wbytes := 0\<rparr>, s2), False))
         | (TRANSMIT_INCOMPLETE, c1) \<Rightarrow> ((c1, s), False)
         | (TRANSMIT_HARD_ERROR, c1) \<Rightarrow> ((c1, s), False)
         | (TRANSMIT_SOFT_ERROR, c1) \<Rightarrow> ((c1, s), True)))"

text \<open>
  The condition of the \<^verbatim>\<open>if\<close> in the case \<^verbatim>\<open>conn_write\<close>: the reply in the write
  buffer is made the one message to send.  The result is 0 when all three calls
  succeeded.
\<close>

definition write_setup :: "limits \<Rightarrow> conn \<Rightarrow> int \<times> conn" where
  "write_setup L c =
     (case add_msghdr L c of (rc1, c1) \<Rightarrow>
        if rc1 \<noteq> 0 then (-1, c1)
        else
          (case add_iov L (Some (drop (wcurr c1) (wbuf c1))) (wbytes c1) True c1
           of (rc2, c2) \<Rightarrow>
             if rc2 \<noteq> 0 then (-1, c2)
             else if udp c2 then
               (case build_udp_headers c2 of (rc3, c3) \<Rightarrow>
                  if rc3 \<noteq> 0 then (-1, c3) else (0, c3))
             else (0, c2)))"

definition drive_machine_write ::
  "limits \<Rightarrow> send_result \<Rightarrow> bool \<times> bool \<Rightarrow> conn \<times> cache \<Rightarrow> (conn \<times> cache) \<times> bool" where
  "drive_machine_write L sent ev cs =
     (case cs of (c, s) \<Rightarrow>
        if iovused c = 0 then
          (case write_setup L c of (rc, c1) \<Rightarrow>
             if rc \<noteq> 0 then ((conn_set_state L conn_closing c1, s), False)
             else drive_machine_mwrite L sent ev (c1, s))
        else drive_machine_mwrite L sent ev (c, s))"


datatype read_result = Read_bytes string | Read_again | Read_error



text \<open>
  \<^verbatim>\<open>try_read_udp\<close>.  \<open>dgram\<close> is what \<^verbatim>\<open>recvfrom\<close> delivers (a datagram is cut to the
  size of the buffer); \<open>bp_write_err_msg\<close> is the error reply of the binary protocol.
  The choice of the socket for the reply (\<^verbatim>\<open>HAVE_UDP_REPLY_PORTS\<close>) is not modelled.
\<close>

definition try_read_udp ::
  "limits \<Rightarrow> (string \<Rightarrow> conn \<Rightarrow> conn) \<Rightarrow> read_result \<Rightarrow> conn \<Rightarrow> int \<times> conn" where
  "try_read_udp L bp_write_err_msg dgram c =
     (case (if rbuf c = None then
              (case pool_request c of (ok, c') \<Rightarrow>
                 if ok then
                   (True, c'\<lparr>rbuf := Some (replicate (nat (CONN_BUFFER_DATA_SZ L)) (CHR 0x00)),
                             rcurr := 0, rsize := CONN_BUFFER_DATA_SZ L\<rparr>)
                 else
                   (False, if binary c' then bp_write_err_msg ''out of memory'' c'
                           else out_string L ''SERVER_ERROR out of memory'' c'))
            else (True, c))
      of (have_buf, c1) \<Rightarrow>
        if \<not> have_buf then (0, c1)
        else
          (case (case dgram of Read_bytes d \<Rightarrow> Some (take (nat (rsize c1)) d) | _ \<Rightarrow> None) of
             Some d \<Rightarrow>
               (let c2 = c1\<lparr>rbuf := map_option (\<lambda>b. memcpy_at b 0 d) (rbuf c1)\<rparr>
                in if length d > 8 then
                     (let c3 = c2\<lparr>request_id :=
                                   of_char (d ! 0) * 256 + of_char (d ! 1)\<rparr>
                      in if (of_char (d ! 4) :: nat) \<noteq> 0 \<or> (of_char (d ! 5) :: nat) \<noteq> 1 then
                           (0, if binary c3
                               then bp_write_err_msg ''multi-packet request not supported'' c3
                               else out_string L
                                      ''SERVER_ERROR multi-packet request not supported'' c3)
                         else
                           (1, c3\<lparr>rbuf := map_option
                                   (\<lambda>b. memcpy_at b 0 (take (length d - 8) (drop 8 b)))
                                   (rbuf c3),
                                  rbytes := rbytes c3 + (int (length d) - 8),
                                  rcurr := 0\<rparr>))
                   else (0, c2\<lparr>rbuf := None, rcurr := 0, rsize := 0\<rparr>))
           | None \<Rightarrow> (0, c1\<lparr>rbuf := None, rcurr := 0, rsize := 0\<rparr>)))"



record update_env =
  ue_alloc :: "addr list \<times> addr option"
  ue_setup_ok :: bool
  ue_size_ok :: bool




text \<open>
  The bytes a connection in state \<^verbatim>\<open>conn_write\<close> sends: \<^verbatim>\<open>wbytes\<close> bytes from
  \<^verbatim>\<open>wcurr\<close> (the case \<^verbatim>\<open>conn_write\<close> of \<^verbatim>\<open>drive_machine\<close> hands exactly these to
  \<^verbatim>\<open>add_iov\<close>).
\<close>

definition pending_reply :: "conn \<Rightarrow> string" where
  "pending_reply c = take (wbytes c) (drop (wcurr c) (wbuf c))"

abbreviation CRLF :: string where
  "CRLF \<equiv> [CHR 0x0D, CHR 0x0A]"

subsection \<open>The rows of the store decision table\<close>

text \<open>
  The index is well formed when every item it maps a key to is linked and carries that
  key (section 3 of the specification).  For a key, the table of section 4.2
  distinguishes: no item found (none in the index, or an expired one), an item that is
  live, and an item hidden by a delete lock.
\<close>

definition index_ok :: "cache \<Rightarrow> bool" where
  "index_ok s \<longleftrightarrow>
     (\<forall>k a. assoc s k = Some a \<longrightarrow> it_linked (items s a) \<and> it_key (items s a) = k)"

definition key_absent :: "cache \<Rightarrow> string \<Rightarrow> bool" where
  "key_absent s key \<longleftrightarrow>
     (case assoc s key of
        None \<Rightarrow> True
      | Some a \<Rightarrow> \<not> it_deleted (items s a) \<and> item_expired s (items s a))"

definition key_live :: "cache \<Rightarrow> string \<Rightarrow> addr \<Rightarrow> bool" where
  "key_live s key a \<longleftrightarrow>
     assoc s key = Some a \<and> \<not> it_deleted (items s a) \<and> \<not> item_expired s (items s a)"

definition key_delete_locked :: "cache \<Rightarrow> string \<Rightarrow> addr \<Rightarrow> bool" where
  "key_delete_locked s key a \<longleftrightarrow> assoc s key = Some a \<and> it_deleted (items s a)"

subsection \<open>Notions for the statements about the state machine\<close>

text \<open>
  \<open>same_conn c c'\<close>: the two connections differ at most in the list of outgoing
  messages and its counters (setting up messages leaves the rest alone).
\<close>

definition same_conn :: "conn \<Rightarrow> conn \<Rightarrow> bool" where
  "same_conn c c' \<longleftrightarrow>
     udp c' = udp c \<and> binary c' = binary c \<and> state c' = state c \<and>
     write_and_go c' = write_and_go c \<and> sbytes c' = sbytes c \<and>
     request_id c' = request_id c \<and> rbuf c' = rbuf c \<and> rcurr c' = rcurr c \<and>
     rbytes c' = rbytes c \<and> rsize c' = rsize c \<and> wbuf c' = wbuf c \<and>
     wbytes c' = wbytes c \<and> wcurr c' = wcurr c \<and> wsize c' = wsize c"

text \<open>
  \<open>pending_message c\<close>: \<^verbatim>\<open>transmit\<close> finds a message to hand to \<^verbatim>\<open>sendmsg\<close> (after it
  has stepped over a message that is written out).
\<close>

definition pending_message :: "conn \<Rightarrow> bool" where
  "pending_message c \<longleftrightarrow>
     (if msgcurr c < msgused c \<and> msg_iov (msglist c (msgcurr c)) = []
      then msgcurr c + 1 else msgcurr c) < msgused c"

text \<open>
  The bytes in the read buffer that \<^verbatim>\<open>try_read_command\<close> looks at: \<^verbatim>\<open>rbytes\<close> bytes
  from \<^verbatim>\<open>rcurr\<close>.
\<close>

definition command_input :: "conn \<Rightarrow> string" where
  "command_input c =
     (case rbuf c of None \<Rightarrow> [] | Some b \<Rightarrow> take (nat (rbytes c)) (drop (nat (rcurr c)) b))"

text \<open>
  What the messages of a datagram response keep to while the response is built:
  every message begins with the slot for its header (\<open>hdr_slot\<close>) and holds at most
  \<^verbatim>\<open>UDP_MAX_PAYLOAD_SIZE\<close> bytes, the slot counted in, and \<^verbatim>\<open>msgbytes\<close> is the size of the
  last message.
\<close>

definition hdr_slot :: "msghdr \<Rightarrow> bool" where
  "hdr_slot m \<longleftrightarrow> msg_iov m \<noteq> [] \<and> iov_len (hd (msg_iov m)) = UDP_HEADER_SIZE"

definition udp_msgs_ok :: "conn \<Rightarrow> bool" where
  "udp_msgs_ok c \<longleftrightarrow>
     udp c \<and>
     (\<forall>i<msgused c. msg_total (msglist c i) \<le> UDP_MAX_PAYLOAD_SIZE \<and> hdr_slot (msglist c i)) \<and>
     (0 < msgused c \<longrightarrow> msgbytes c = msg_total (msglist c (msgused c - 1)))"

text \<open>
  The number that \<^verbatim>\<open>build_udp_headers\<close> writes in the fourth field of a header: the
  bytes of the message before its first response line, the header counted in, or 0.
\<close>

definition response_offset :: "msghdr \<Rightarrow> nat" where
  "response_offset m =
     (if msg_flags m \<noteq> 0
      then sum_list (take (msg_controllen m) (UDP_HEADER_SIZE # map iov_len (tl (msg_iov m))))
      else 0)"

text \<open>
  \<open>udp_response L c0 c\<close>: the connection \<open>c\<close> holds a datagram response under
  construction.  A response starts on the emptied message list \<open>c0\<close> with a call of
  \<^verbatim>\<open>add_msghdr\<close> that succeeds (\<^verbatim>\<open>process_command\<close>, and the state \<^verbatim>\<open>conn_write\<close> of
  \<^verbatim>\<open>drive_machine\<close>); every further fragment is added with \<^verbatim>\<open>add_iov\<close>, whatever it
  returns; in between, the connection changes in its other fields only.
\<close>

inductive udp_response :: "limits \<Rightarrow> conn \<Rightarrow> conn \<Rightarrow> bool" for L :: limits and c0 :: conn where
  start: "udp c0 \<Longrightarrow> msgused c0 = 0 \<Longrightarrow> add_msghdr L c0 = (0, c) \<Longrightarrow> udp_response L c0 c"
| fragment: "udp_response L c0 c \<Longrightarrow> udp_response L c0 (snd (add_iov L buf len is_start c))"
| other: "udp_response L c0 c \<Longrightarrow> udp c' = udp c \<Longrightarrow> request_id c' = request_id c \<Longrightarrow>
     msglist c' = msglist c \<Longrightarrow> msgused c' = msgused c \<Longrightarrow> msgbytes c' = msgbytes c \<Longrightarrow>
     udp_response L c0 c'"







section \<open>Example states\<close>

text \<open>Concrete constants, items, stores and connections for the witnesses below.\<close>

definition limits0 :: limits where
  "limits0 = \<lparr>DATA_BUFFER_SIZE = 64, WRITE_BUFFER_HIGHWAT = 256, ITEM_LIST_INITIAL = 200,
     ITEM_LIST_HIGHWAT = 400, MSG_LIST_INITIAL = 10, MSG_LIST_HIGHWAT = 100, IOV_MAX = 1024,
     IOV_LIST_SZ = 256, CONN_BUFFER_DATA_SZ = 4096\<rparr>"

definition item0 :: "string \<Rightarrow> string \<Rightarrow> nat \<Rightarrow> bool \<Rightarrow> bool \<Rightarrow> item" where
  "item0 k v r l d = \<lparr>it_key = k, it_data = v, it_flags = 0, it_exptime = 0, it_time = 5,
     it_refcount = r, it_linked = l, it_deleted = d, it_stamp = None\<rparr>"

text \<open>
  \<open>cache0\<close>: the key \<open>k\<close> holds the linked item 1 with value \<open>7\<close>; item 2 is a new,
  unlinked item for \<open>k\<close> held by a connection.  In \<open>cache1\<close> item 1 is delete-locked.
\<close>

definition cache0 :: cache where
  "cache0 = \<lparr>items = (\<lambda>_. item0 [] [] 0 False False)
                (1 := item0 ''k'' ''7'' 1 True False, 2 := item0 ''k'' ''y'' 1 False False),
     assoc = [''k'' \<mapsto> 1], lru = [1], freed = {}, current_time = 10, oldest_live = 0\<rparr>"

definition cache1 :: cache where
  "cache1 = cache0\<lparr>items := (items cache0)(1 := item0 ''k'' ''7'' 1 True True)\<rparr>"

text \<open>
  \<open>conn0\<close>: a text connection over a stream socket that has read the value of
  \<^verbatim>\<open>add k ...\<close> into item 2.
\<close>

definition conn0 :: conn where
  "conn0 = \<lparr>state = conn_nread, write_and_go = conn_read, udp = False, binary = False,
     rbuf = None, rcurr = 0, rsize = 0, rbytes = 0,
     wbuf = replicate 64 (CHR 0x00), wcurr = 0, wsize = 64, wbytes = 0, sbytes = 0,
     item = Some 2, item_comm = NREAD_ADD, update_key = ''k'', crlf = CRLF,
     ilist = [], isize = 200,
     msglist = (\<lambda>_. \<lparr>msg_iov = [], msg_flags = 0, msg_controllen = 0\<rparr>), msgsize = 10, msgused = 0, msgcurr = 0,
     msgbytes = 0, iov = False, iovsize = 0, iovused = 0, riov = False, riov_size = 0,
     hdrbuf = False, hdrsize = 0, request_id = 0, ev_flags = 18, write_and_free = False,
     bucket = -1, gen = 0, pool = []\<rparr>"

text \<open>
  \<open>no_realloc\<close>: an allocator for which a value always fits its storage.  In
  \<open>cache2\<close> the key \<open>k\<close> holds the largest \<^verbatim>\<open>uint32_t\<close>.
\<close>

definition no_realloc :: "item \<Rightarrow> nat \<Rightarrow> bool" where
  "no_realloc i n = False"

definition cache2 :: cache where
  "cache2 = cache0\<lparr>items := (items cache0)(1 := item0 ''k'' ''4294967295'' 1 True False)\<rparr>"

text \<open>\<open>conn1\<close>: a datagram connection with one message ready to send.\<close>

definition conn1 :: conn where
  "conn1 = conn0\<lparr>state := conn_mwrite, udp := True, msgused := 1, iovused := 2,
     msglist := (\<lambda>_. \<lparr>msg_iov =
        [\<lparr>iov_base = Some (udp_header 7 0 1 0), iov_len = 8\<rparr>,
         \<lparr>iov_base = Some ''END'', iov_len = 3\<rparr>], msg_flags = 0, msg_controllen = 0\<rparr>)\<rparr>"

text \<open>
  \<open>bp_none\<close> stands in for the error reply of the binary protocol; \<open>conn2\<close> is
  a datagram connection without a read buffer, \<open>dgram1 k\<close> a request datagram whose
  field for the number of datagrams holds \<open>k\<close>.
\<close>

definition bp_none :: "string \<Rightarrow> conn \<Rightarrow> conn" where
  "bp_none msg c = c"

definition conn2 :: conn where
  "conn2 = conn0\<lparr>state := conn_read, udp := True, item := None, pool := [True]\<rparr>"

definition dgram1 :: "nat \<Rightarrow> string" where
  "dgram1 k =
     [CHR 0x00, CHR 0x07, CHR 0x00, CHR 0x00, CHR 0x00, char_of k, CHR 0x00, CHR 0x00]
       @ ''get k'' @ CRLF"

text \<open>
  \<open>conn3\<close>: a datagram connection that has taken a request with the id 7;
  \<open>response3\<close> is the response \<^verbatim>\<open>END\<close> to it.
\<close>

definition conn3 :: conn where
  "conn3 = conn2\<lparr>request_id := 7, pool := [True, True]\<rparr>"

definition response3 :: conn where
  "response3 = snd (add_iov limits0 (Some (''END'' @ CRLF)) 5 True (snd (add_msghdr limits0 conn3)))"




definition no_memory :: update_env where
  "no_memory = \<lparr>ue_alloc = ([], None), ue_setup_ok = True, ue_size_ok = True\<rparr>"



section \<open>Properties of the time conversion\<close>




section \<open>Properties of the one-line reply and of the item store\<close>

lemma state_conn_set_state [simp]: "state (conn_set_state L st c) = st"
  by (simp add: conn_set_state_def)

lemma wbuf_conn_set_state_nonread:
  "st \<noteq> conn_read \<Longrightarrow> conn_set_state L st c = (if st = state c then c else c\<lparr>state := st\<rparr>)"
  by (simp add: conn_set_state_def)

lemma length_memcpy_at:
  "off \<le> length buf \<Longrightarrow> length (memcpy_at buf off src) = max (length buf) (off + length src)"
  by (simp add: memcpy_at_def)

lemma out_string_eq:
  "out_string L str c =
     (let str' = (if length str + 2 > wsize c then ''SERVER_ERROR output line too long'' else str)
      in c\<lparr>msgused := 0, iovused := 0,
            wbuf := memcpy_at (memcpy_at (wbuf c) 0 str') (length str') CRLF,
            wbytes := length str' + 2, wcurr := 0, state := conn_write,
            write_and_go := conn_read\<rparr>)"
  by (simp add: out_string_def conn_set_state_def Let_def)

lemma take_memcpy2:
  "take (length s + 2) (memcpy_at (memcpy_at b 0 s) (length s) CRLF) = s @ CRLF"
  by (simp add: memcpy_at_def)

lemma pending_reply_out_string:
  "length str + 2 \<le> wsize c \<Longrightarrow> pending_reply (out_string L str c) = str @ CRLF"
  unfolding out_string_eq pending_reply_def Let_def
  using take_memcpy2[of str "wbuf c"] by simp

lemma out_string_fields [simp]:
  "state (out_string L str c) = conn_write"
  "write_and_go (out_string L str c) = conn_read"
  "wsize (out_string L str c) = wsize c"
  "item (out_string L str c) = item c"
  by (simp_all add: out_string_eq Let_def)

subsection \<open>The operations of the item store\<close>

lemma ITEM_update_fields [simp]:
  "assoc (ITEM_update a f s) = assoc s"
  "lru (ITEM_update a f s) = lru s"
  "items (ITEM_update a f s) = (items s)(a := f (items s a))"
  "current_time (ITEM_update a f s) = current_time s"
  "oldest_live (ITEM_update a f s) = oldest_live s"
  by (simp_all add: ITEM_update_def)

lemma item_free_if_unused_fields [simp]:
  "assoc (item_free_if_unused a s) = assoc s"
  "lru (item_free_if_unused a s) = lru s"
  "items (item_free_if_unused a s) = items s"
  by (simp_all add: item_free_if_unused_def)

lemma do_item_deref_fields [simp]:
  "assoc (do_item_deref a s) = assoc s"
  "lru (do_item_deref a s) = lru s"
  "items (do_item_deref a s) = (items s)(a := (items s a)\<lparr>it_refcount := it_refcount (items s a) - 1\<rparr>)"
  by (simp_all add: do_item_deref_def)

lemma do_item_link_fields [simp]:
  "assoc (do_item_link a key s) = (assoc s)(key \<mapsto> a)"
  "lru (do_item_link a key s) = a # lru s"
  "items (do_item_link a key s) =
     (items s)(a := (items s a)\<lparr>it_linked := True, it_refcount := it_refcount (items s a) + 1\<rparr>)"
  by (simp_all add: do_item_link_def)

lemma do_item_unlink_fields:
  "assoc (do_item_unlink a s) =
     (if it_linked (items s a) then (assoc s)(it_key (items s a) := None) else assoc s)"
  "lru (do_item_unlink a s) = (if it_linked (items s a) then removeAll a (lru s) else lru s)"
  "items (do_item_unlink a s) =
     (if it_linked (items s a)
      then (items s)(a := (items s a)\<lparr>it_linked := False, it_refcount := it_refcount (items s a) - 1\<rparr>)
      else items s)"
  by (simp_all add: do_item_unlink_def)

lemma do_item_update_fields [simp]:
  "assoc (do_item_update a s) = assoc s"
  "items (do_item_update a s) = items s"
  "lru (do_item_update a s) = (if it_linked (items s a) then a # removeAll a (lru s) else lru s)"
  by (simp_all add: do_item_update_def)

lemma do_store_item_absent:
  "do_item_get_notedeleted key s = (None, False, s1) \<Longrightarrow>
   do_store_item it comm key s =
     (if comm = NREAD_REPLACE then (False, s1) else (True, do_item_link it key s1))"
  by (cases comm) (simp_all add: do_store_item_def)

lemma do_store_item_live:
  "do_item_get_notedeleted key s = (Some old, False, s1) \<Longrightarrow>
   do_store_item it comm key s =
     (if comm = NREAD_ADD then (False, do_item_deref old (do_item_update old s1))
      else (True, do_item_deref old (do_item_replace old it key s1)))"
  by (cases comm) (simp_all add: do_store_item_def)

lemma do_store_item_locked:
  "do_item_get_notedeleted key s = (None, True, s1) \<Longrightarrow>
   do_store_item it comm key s =
     (if comm = NREAD_SET then
        (case do_item_get_nocheck key s1 of
           (Some old, s2) \<Rightarrow> (True, do_item_deref old (do_item_replace old it key s2))
         | (None, s2) \<Rightarrow> (True, do_item_link it key s2))
      else (False, s1))"
  by (cases comm) (simp_all add: do_store_item_def split: prod.splits option.splits)

lemma get_absent:
  "key_absent s key \<Longrightarrow>
   \<exists>s1. do_item_get_notedeleted key s = (None, False, s1) \<and>
        (index_ok s \<longrightarrow> assoc s1 key = None) \<and>
        (\<forall>k. assoc s1 k \<noteq> assoc s k \<longrightarrow> assoc s1 k = None) \<and>
        it_linked (items s1 it) = (it_linked (items s it) \<and> assoc s key \<noteq> Some it)"
  by (auto simp: key_absent_def do_item_get_notedeleted_def index_ok_def do_item_unlink_fields
           split: option.splits)

lemma complete_nread_ok:
  assumes "item c = Some it" "crlf c = CRLF"
  shows "complete_nread L (c, s) =
     (case do_store_item it (item_comm c) (update_key c) s of (stored, s1) \<Rightarrow>
        ((out_string L (if stored then ''STORED'' else ''NOT_STORED'') c)\<lparr>item := None\<rparr>,
         do_item_deref it s1))"
  using assms by (simp add: complete_nread_def split: prod.splits)

lemma pending_reply_item [simp]: "pending_reply (c\<lparr>item := x\<rparr>) = pending_reply c"
  by (simp add: pending_reply_def)

lemma row_absent:
  assumes "item c = Some it" "crlf c = CRLF" "12 \<le> wsize c" "index_ok s"
    and "\<not> it_linked (items s it)" "key_absent s (update_key c)"
    and "complete_nread L (c, s) = (c', s')"
  shows "if item_comm c = NREAD_REPLACE
         then pending_reply c' = ''NOT_STORED'' @ CRLF \<and> assoc s' (update_key c) = None \<and>
              (\<forall>k. assoc s' k \<noteq> Some it)
         else pending_reply c' = ''STORED'' @ CRLF \<and> assoc s' (update_key c) = Some it \<and>
              hd (lru s') = it \<and> it_linked (items s' it)"
proof -
  from get_absent[OF assms(6), of it] obtain s1 where
    g: "do_item_get_notedeleted (update_key c) s = (None, False, s1)"
    and a1: "assoc s1 (update_key c) = None"
    and a2: "\<forall>k. assoc s1 k \<noteq> assoc s k \<longrightarrow> assoc s1 k = None"
    using assms(4) by blast
  have notin: "\<forall>k. assoc s k \<noteq> Some it"
    using assms(4,5) by (auto simp: index_ok_def)
  have notin1: "\<forall>k. assoc s1 k \<noteq> Some it"
    using notin a2 by (metis option.distinct(1))
  show ?thesis
    using assms(7) a1 notin1 assms(3)
    by (auto simp: complete_nread_ok[OF assms(1,2)] do_store_item_absent[OF g]
          pending_reply_out_string)
qed

lemma get_live:
  "key_live s key old \<Longrightarrow>
   do_item_get_notedeleted key s =
     (Some old, False, ITEM_update old (\<lambda>i. i\<lparr>it_refcount := it_refcount i + 1\<rparr>) s)"
  by (simp add: key_live_def do_item_get_notedeleted_def)

lemma get_locked:
  "key_delete_locked s key old \<Longrightarrow> do_item_get_notedeleted key s = (None, True, s)"
  by (simp add: key_delete_locked_def do_item_get_notedeleted_def)

lemma nocheck_locked:
  "key_delete_locked s key old \<Longrightarrow>
   do_item_get_nocheck key s =
     (Some old, ITEM_update old (\<lambda>i. i\<lparr>it_refcount := it_refcount i + 1\<rparr>) s)"
  by (simp add: key_delete_locked_def do_item_get_nocheck_def)

lemma replace_pinned:
  assumes "it_linked (items s old)" "it_key (items s old) = key" "old \<noteq> it"
  shows "assoc (do_item_deref it (do_item_deref old (do_item_replace old it key
            (ITEM_update old (\<lambda>i. i\<lparr>it_refcount := it_refcount i + 1\<rparr>) s)))) key = Some it"
    and "lru (do_item_deref it (do_item_deref old (do_item_replace old it key
            (ITEM_update old (\<lambda>i. i\<lparr>it_refcount := it_refcount i + 1\<rparr>) s))))
          = it # removeAll old (lru s)"
    and "\<not> it_linked (items (do_item_deref it (do_item_deref old (do_item_replace old it key
            (ITEM_update old (\<lambda>i. i\<lparr>it_refcount := it_refcount i + 1\<rparr>) s)))) old)"
    and "it_linked (items (do_item_deref it (do_item_deref old (do_item_replace old it key
            (ITEM_update old (\<lambda>i. i\<lparr>it_refcount := it_refcount i + 1\<rparr>) s)))) it)"
  using assms by (simp_all add: do_item_replace_def do_item_unlink_fields)

lemma row_live:
  assumes "item c = Some it" "crlf c = CRLF" "12 \<le> wsize c" "index_ok s"
    and "\<not> it_linked (items s it)" "key_live s (update_key c) old"
    and "complete_nread L (c, s) = (c', s')"
  shows "if item_comm c = NREAD_ADD
         then pending_reply c' = ''NOT_STORED'' @ CRLF \<and> assoc s' = assoc s \<and>
              lru s' = old # removeAll old (lru s) \<and> items s' old = items s old
         else pending_reply c' = ''STORED'' @ CRLF \<and> assoc s' (update_key c) = Some it \<and>
              lru s' = it # removeAll old (lru s) \<and> it_linked (items s' it) \<and>
              \<not> it_linked (items s' old)"
proof -
  have o: "it_linked (items s old)" "it_key (items s old) = update_key c" "old \<noteq> it"
    using assms(4,5,6) by (auto simp: index_ok_def key_live_def)
  show ?thesis
    using assms(7) assms(3) o replace_pinned[OF o]
    by (auto simp: complete_nread_ok[OF assms(1,2)] do_store_item_live[OF get_live[OF assms(6)]]
          pending_reply_out_string)
qed

lemma row_locked:
  assumes "item c = Some it" "crlf c = CRLF" "12 \<le> wsize c" "index_ok s"
    and "\<not> it_linked (items s it)" "key_delete_locked s (update_key c) old"
    and "complete_nread L (c, s) = (c', s')"
  shows "if item_comm c = NREAD_SET
         then pending_reply c' = ''STORED'' @ CRLF \<and> assoc s' (update_key c) = Some it \<and>
              lru s' = it # removeAll old (lru s) \<and> it_linked (items s' it) \<and>
              \<not> it_linked (items s' old)
         else pending_reply c' = ''NOT_STORED'' @ CRLF \<and> assoc s' = assoc s \<and>
              lru s' = lru s \<and> items s' old = items s old"
proof -
  have o: "it_linked (items s old)" "it_key (items s old) = update_key c" "old \<noteq> it"
    using assms(4,5,6) by (auto simp: index_ok_def key_delete_locked_def)
  show ?thesis
    using assms(7) assms(3) o replace_pinned[OF o]
    by (auto simp: complete_nread_ok[OF assms(1,2)]
          do_store_item_locked[OF get_locked[OF assms(6)]] nocheck_locked[OF assms(6)]
          pending_reply_out_string)
qed


section \<open>The store decision and the end of the value\<close>

text \<open>
  Claim C1.  A connection has read the value of a set, add or replace for \<open>key\<close> into
  the new, unlinked item \<open>it\<close>, and the value ended in CR LF.  The decision follows the
  table of section 4.2.  When no item is found, add and set link \<open>it\<close> under the key, at
  the head of the LRU, and reply STORED; replace replies NOT_STORED and links nothing.
  When a live item \<open>old\<close> is found, add replies NOT_STORED, leaves the index and \<open>old\<close>
  as they were and moves \<open>old\<close> to the head of the LRU; set and replace put \<open>it\<close> in the
  place of \<open>old\<close> and reply STORED.  When \<open>old\<close> is hidden by a delete lock, set puts
  \<open>it\<close> in its place and replies STORED; add and replace reply NOT_STORED and change
  neither the index nor the LRU.  The reply is STORED exactly when \<^verbatim>\<open>do_store_item\<close>
  stored the item, and NOT_STORED exactly when it did not.
\<close>

theorem store_item_decision:
  assumes "item c = Some it" and "crlf c = CRLF" and "update_key c = key"
    and "item_comm c = comm" and "12 \<le> wsize c"
    and "index_ok s" and "\<not> it_linked (items s it)"
    and "complete_nread L (c, s) = (c', s')"
  shows
    "(key_absent s key \<longrightarrow>
        (if comm = NREAD_REPLACE
         then pending_reply c' = ''NOT_STORED'' @ CRLF \<and> assoc s' key = None \<and>
              (\<forall>k. assoc s' k \<noteq> Some it)
         else pending_reply c' = ''STORED'' @ CRLF \<and> assoc s' key = Some it \<and>
              hd (lru s') = it \<and> it_linked (items s' it))) \<and>
     (\<forall>old. key_live s key old \<longrightarrow>
        (if comm = NREAD_ADD
         then pending_reply c' = ''NOT_STORED'' @ CRLF \<and> assoc s' = assoc s \<and>
              lru s' = old # removeAll old (lru s) \<and> items s' old = items s old
         else pending_reply c' = ''STORED'' @ CRLF \<and> assoc s' key = Some it \<and>
              lru s' = it # removeAll old (lru s) \<and> it_linked (items s' it) \<and>
              \<not> it_linked (items s' old))) \<and>
     (\<forall>old. key_delete_locked s key old \<longrightarrow>
        (if comm = NREAD_SET
         then pending_reply c' = ''STORED'' @ CRLF \<and> assoc s' key = Some it \<and>
              lru s' = it # removeAll old (lru s) \<and> it_linked (items s' it) \<and>
              \<not> it_linked (items s' old)
         else pending_reply c' = ''NOT_STORED'' @ CRLF \<and> assoc s' = assoc s \<and>
              lru s' = lru s \<and> items s' old = items s old)) \<and>
     (pending_reply c' = ''STORED'' @ CRLF \<longleftrightarrow> fst (do_store_item it comm key s)) \<and>
     (pending_reply c' = ''NOT_STORED'' @ CRLF \<longleftrightarrow> \<not> fst (do_store_item it comm key s))"
proof -
  have r1: "key_absent s key \<longrightarrow>
        (if comm = NREAD_REPLACE
         then pending_reply c' = ''NOT_STORED'' @ CRLF \<and> assoc s' key = None \<and>
              (\<forall>k. assoc s' k \<noteq> Some it)
         else pending_reply c' = ''STORED'' @ CRLF \<and> assoc s' key = Some it \<and>
              hd (lru s') = it \<and> it_linked (items s' it))"
    using row_absent [OF assms(1,2,5,6,7) _ assms(8)] assms(3,4) by blast
  have r2: "\<forall>old. key_live s key old \<longrightarrow>
        (if comm = NREAD_ADD
         then pending_reply c' = ''NOT_STORED'' @ CRLF \<and> assoc s' = assoc s \<and>
              lru s' = old # removeAll old (lru s) \<and> items s' old = items s old
         else pending_reply c' = ''STORED'' @ CRLF \<and> assoc s' key = Some it \<and>
              lru s' = it # removeAll old (lru s) \<and> it_linked (items s' it) \<and>
              \<not> it_linked (items s' old))"
    using row_live [OF assms(1,2,5,6,7) _ assms(8)] assms(3,4) by blast
  have r3: "\<forall>old. key_delete_locked s key old \<longrightarrow>
        (if comm = NREAD_SET
         then pending_reply c' = ''STORED'' @ CRLF \<and> assoc s' key = Some it \<and>
              lru s' = it # removeAll old (lru s) \<and> it_linked (items s' it) \<and>
              \<not> it_linked (items s' old)
         else pending_reply c' = ''NOT_STORED'' @ CRLF \<and> assoc s' = assoc s \<and>
              lru s' = lru s \<and> items s' old = items s old)"
    using row_locked [OF assms(1,2,5,6,7) _ assms(8)] assms(3,4) by blast
  have r4: "pending_reply c' =
      (if fst (do_store_item it comm key s) then ''STORED'' else ''NOT_STORED'') @ CRLF"
    using assms(8) assms(3,4,5)
    by (auto simp: complete_nread_ok [OF assms(1,2)] pending_reply_out_string
          split: prod.splits)
  have r5: "(pending_reply c' = ''STORED'' @ CRLF \<longleftrightarrow> fst (do_store_item it comm key s)) \<and>
     (pending_reply c' = ''NOT_STORED'' @ CRLF \<longleftrightarrow> \<not> fst (do_store_item it comm key s))"
    unfolding r4 by simp
  show ?thesis using r1 r2 r3 r5 by blast
qed

theorem store_item_decision_witness:
  "pending_reply (fst (complete_nread limits0 (conn0, cache0))) = ''NOT_STORED'' @ CRLF \<and>
   assoc (snd (complete_nread limits0 (conn0, cache0))) ''k'' = Some 1 \<and>
   lru (snd (complete_nread limits0 (conn0, cache0))) = [1] \<and>
   pending_reply (fst (complete_nread limits0 (conn0\<lparr>item_comm := NREAD_SET\<rparr>, cache1)))
     = ''STORED'' @ CRLF \<and>
   assoc (snd (complete_nread limits0 (conn0\<lparr>item_comm := NREAD_SET\<rparr>, cache1))) ''k'' = Some 2"
proof -
  have live: "key_live cache0 ''k'' 1"
    by (simp add: key_live_def cache0_def item0_def item_expired_def)
  have locked: "key_delete_locked cache1 ''k'' 1"
    by (simp add: key_delete_locked_def cache1_def cache0_def item0_def)
  have ok0: "index_ok cache0" "\<not> it_linked (items cache0 2)"
    by (simp_all add: index_ok_def cache0_def item0_def)
  have ok1: "index_ok cache1" "\<not> it_linked (items cache1 2)"
    by (simp_all add: index_ok_def cache1_def cache0_def item0_def)
  have c: "item conn0 = Some 2" "crlf conn0 = CRLF" "update_key conn0 = ''k''"
    "item_comm conn0 = NREAD_ADD" "12 \<le> wsize conn0"
    by (simp_all add: conn0_def)
  have l0: "lru cache0 = [1]" by (simp add: cache0_def)
  have a0: "assoc cache0 ''k'' = Some 1" by (simp add: cache0_def)
  show ?thesis
    using store_item_decision [OF c ok0 surjective_pairing] live l0 a0
      store_item_decision [of "conn0\<lparr>item_comm := NREAD_SET\<rparr>" 2 "''k''" NREAD_SET cache1,
        OF _ _ _ _ _ ok1 surjective_pairing] locked c
    by simp
qed

text \<open>
  Claim C2.  When the value has been read, \<^verbatim>\<open>complete_nread\<close> looks at the two bytes that
  follow it.  If they are not CR LF the reply is \<^verbatim>\<open>CLIENT_ERROR bad data chunk\<close> and the
  store decision is not taken: the store only loses the connection's reference to the
  new item, and the index, the LRU and every other item are unchanged.  If they are
  CR LF the store is the one \<^verbatim>\<open>do_store_item\<close> leaves (less that reference) and the reply
  is STORED or NOT_STORED as \<^verbatim>\<open>do_store_item\<close> says.  In both cases the connection goes
  to \<^verbatim>\<open>conn_write\<close>, to return to \<^verbatim>\<open>conn_read\<close>, and gives up the item.
\<close>

theorem complete_nread_checks_crlf:
  assumes "item c = Some it" and "29 \<le> wsize c"
    and "complete_nread L (c, s) = (c', s')"
  shows
    "(crlf c \<noteq> CRLF \<longrightarrow>
        pending_reply c' = ''CLIENT_ERROR bad data chunk'' @ CRLF \<and>
        s' = do_item_deref it s \<and> assoc s' = assoc s \<and> lru s' = lru s \<and>
        (\<forall>a. a \<noteq> it \<longrightarrow> items s' a = items s a)) \<and>
     (crlf c = CRLF \<longrightarrow>
        pending_reply c' =
          (if fst (do_store_item it (item_comm c) (update_key c) s)
           then ''STORED'' else ''NOT_STORED'') @ CRLF \<and>
        s' = do_item_deref it (snd (do_store_item it (item_comm c) (update_key c) s))) \<and>
     state c' = conn_write \<and> write_and_go c' = conn_read \<and> item c' = None"
proof -
  have bad: "crlf c \<noteq> CRLF \<Longrightarrow>
      c' = (out_string L ''CLIENT_ERROR bad data chunk'' c)\<lparr>item := None\<rparr> \<and>
      s' = do_item_deref it s"
    using assms(1,3) by (auto simp: complete_nread_def)
  have good: "crlf c = CRLF \<Longrightarrow>
      c' = (out_string L (if fst (do_store_item it (item_comm c) (update_key c) s)
                          then ''STORED'' else ''NOT_STORED'') c)\<lparr>item := None\<rparr> \<and>
      s' = do_item_deref it (snd (do_store_item it (item_comm c) (update_key c) s))"
    using assms(3) by (auto simp: complete_nread_ok [OF assms(1)] split: prod.splits)
  have st: "state c' = conn_write \<and> write_and_go c' = conn_read \<and> item c' = None"
    using bad good by (cases "crlf c = CRLF") simp_all
  have b2: "crlf c \<noteq> CRLF \<longrightarrow>
        pending_reply c' = ''CLIENT_ERROR bad data chunk'' @ CRLF \<and>
        s' = do_item_deref it s \<and> assoc s' = assoc s \<and> lru s' = lru s \<and>
        (\<forall>a. a \<noteq> it \<longrightarrow> items s' a = items s a)"
    using bad assms(2) by (simp add: pending_reply_out_string)
  have g2: "crlf c = CRLF \<longrightarrow>
        pending_reply c' =
          (if fst (do_store_item it (item_comm c) (update_key c) s)
           then ''STORED'' else ''NOT_STORED'') @ CRLF \<and>
        s' = do_item_deref it (snd (do_store_item it (item_comm c) (update_key c) s))"
    using good assms(2) by (simp add: pending_reply_out_string)
  show ?thesis using st b2 g2 by blast
qed

theorem complete_nread_checks_crlf_witness:
  "pending_reply (fst (complete_nread limits0 (conn0\<lparr>crlf := ''ab''\<rparr>, cache0)))
     = ''CLIENT_ERROR bad data chunk'' @ CRLF \<and>
   assoc (snd (complete_nread limits0 (conn0\<lparr>crlf := ''ab''\<rparr>, cache0))) = assoc cache0 \<and>
   pending_reply (fst (complete_nread limits0 (conn0\<lparr>item_comm := NREAD_REPLACE\<rparr>, cache0)))
     = ''STORED'' @ CRLF"
proof -
  have c: "item (conn0\<lparr>crlf := ''ab''\<rparr>) = Some 2" "29 \<le> wsize (conn0\<lparr>crlf := ''ab''\<rparr>)"
    "crlf (conn0\<lparr>crlf := ''ab''\<rparr>) \<noteq> CRLF"
    by (simp_all add: conn0_def)
  have d: "item (conn0\<lparr>item_comm := NREAD_REPLACE\<rparr>) = Some 2"
    "29 \<le> wsize (conn0\<lparr>item_comm := NREAD_REPLACE\<rparr>)"
    "crlf (conn0\<lparr>item_comm := NREAD_REPLACE\<rparr>) = CRLF"
    "update_key (conn0\<lparr>item_comm := NREAD_REPLACE\<rparr>) = ''k''"
    by (simp_all add: conn0_def)
  have live: "key_live cache0 ''k'' 1"
    by (simp add: key_live_def cache0_def item0_def item_expired_def)
  have st: "fst (do_store_item 2 NREAD_REPLACE ''k'' cache0)"
    by (simp add: do_store_item_live [OF get_live [OF live]])
  show ?thesis
    using complete_nread_checks_crlf [OF c(1,2) surjective_pairing] c(3)
      complete_nread_checks_crlf [OF d(1,2) surjective_pairing] d(3,4) st
    by simp
qed

text \<open>
  Claim C10.  On a connection whose write buffer has at least 35 bytes (every
  connection: the buffer is created with \<^verbatim>\<open>DATA_BUFFER_SIZE\<close> bytes and is never made
  smaller than that), \<^verbatim>\<open>out_string\<close> leaves in the buffer the message followed by CR LF,
  where a message that does not fit with its CR LF is replaced by
  \<^verbatim>\<open>SERVER_ERROR output line too long\<close>; the copy stays inside the buffer, and the
  connection is in \<^verbatim>\<open>conn_write\<close> and returns to \<^verbatim>\<open>conn_read\<close> afterwards.
\<close>

theorem out_string_fits:
  assumes "35 \<le> wsize c" and "length (wbuf c) = wsize c"
  shows
    "pending_reply (out_string L str c) =
       (if length str + 2 > wsize c then ''SERVER_ERROR output line too long'' else str) @ CRLF \<and>
     wcurr (out_string L str c) = 0 \<and>
     wbytes (out_string L str c) \<le> wsize (out_string L str c) \<and>
     length (wbuf (out_string L str c)) = wsize (out_string L str c) \<and>
     wsize (out_string L str c) = wsize c \<and>
     state (out_string L str c) = conn_write \<and>
     write_and_go (out_string L str c) = conn_read"
proof -
  define m where "m = (if length str + 2 > wsize c then ''SERVER_ERROR output line too long'' else str)"
  have fit: "length m + 2 \<le> wsize c"
    using assms(1) by (simp add: m_def)
  have eq: "out_string L str c =
      c\<lparr>msgused := 0, iovused := 0,
        wbuf := memcpy_at (memcpy_at (wbuf c) 0 m) (length m) CRLF,
        wbytes := length m + 2, wcurr := 0, state := conn_write, write_and_go := conn_read\<rparr>"
    by (simp add: out_string_eq m_def Let_def)
  have len: "length (memcpy_at (memcpy_at (wbuf c) 0 m) (length m) CRLF) = wsize c"
    using fit assms(2) by (simp add: memcpy_at_def)
  have rep: "pending_reply (out_string L str c) = m @ CRLF"
    unfolding eq pending_reply_def using take_memcpy2 [of m "wbuf c"] by simp
  show ?thesis
    using fit len rep unfolding m_def [symmetric] by (simp add: eq)
qed

theorem out_string_fits_witness:
  "pending_reply (out_string limits0 ''STORED'' conn0) = ''STORED'' @ CRLF \<and>
   length (wbuf (out_string limits0 ''STORED'' conn0)) = 64 \<and>
   pending_reply (out_string limits0 (replicate 63 CHR ''x'') conn0)
     = ''SERVER_ERROR output line too long'' @ CRLF \<and>
   length (wbuf (out_string limits0 (replicate 63 CHR ''x'') conn0)) = 64"
proof -
  have c: "35 \<le> wsize conn0" "length (wbuf conn0) = wsize conn0" "wsize conn0 = 64"
    by (simp_all add: conn0_def)
  show ?thesis
    using out_string_fits [OF c(1,2), of limits0 "''STORED''"]
      out_string_fits [OF c(1,2), of limits0 "replicate 63 CHR ''x''"] c(3)
    by simp
qed

section \<open>Properties of incr and decr\<close>

lemma length_decimal_pos: "0 < length (decimal n)"
  by (induction n rule: decimal.induct) (subst decimal.simps, simp)

lemma fold_unlink_data:
  "it_data (items (fold do_item_unlink vs s) a) = it_data (items s a)"
  by (induction vs arbitrary: s) (simp_all add: do_item_unlink_fields)

lemma item_strtoul_upd [simp]:
  "item_strtoul (i\<lparr>it_refcount := n\<rparr>) = item_strtoul i"
  by (simp add: item_strtoul_def)

lemma memcpy_at_all: "length buf = length src \<Longrightarrow> memcpy_at buf 0 src = src"
  by (simp add: memcpy_at_def)

lemma in_place_data [simp]:
  "it_data (item_memcpy_to 0 buf (length buf) (ITEM_set_nbytes (length buf) i)) = buf"
  by (simp add: item_memcpy_to_def ITEM_set_nbytes_def memcpy_at_all)

lemma do_try_item_stamp_data [simp]: "it_data (do_try_item_stamp now cl i) = it_data i"
  by (simp add: do_try_item_stamp_def)

lemma item_accessors_keep [simp]:
  "it_linked (item_memcpy_to off buf n i) = it_linked i"
  "it_refcount (item_memcpy_to off buf n i) = it_refcount i"
  "it_linked (ITEM_set_nbytes n i) = it_linked i"
  "it_refcount (ITEM_set_nbytes n i) = it_refcount i"
  "it_linked (do_try_item_stamp now cl i) = it_linked i"
  "it_refcount (do_try_item_stamp now cl i) = it_refcount i"
  by (simp_all add: item_memcpy_to_def ITEM_set_nbytes_def do_try_item_stamp_def)

lemma do_add_delta_live:
  assumes "key_live s key it"
  shows "do_add_delta key incr delta client need_realloc alloc s =
     (let s1 = ITEM_update it (\<lambda>i. i\<lparr>it_refcount := it_refcount i + 1\<rparr>) s;
          buf = decimal (unat (add_delta_value incr (item_strtoul (items s it)) delta));
          res = length buf
      in if need_realloc (items s1 it) res \<or> it_refcount (items s1 it) > 1 then
           (case do_item_alloc key (it_flags (items s1 it)) (it_exptime (items s1 it))
                   res alloc s1 of
              (None, s2) \<Rightarrow> (''SERVER_ERROR out of memory'', do_item_deref it s2)
            | (Some new_it, s2) \<Rightarrow>
                (buf, do_item_deref it (do_item_deref new_it (do_item_replace it new_it key
                        (ITEM_update new_it (item_memcpy_to 0 buf res) s2)))))
         else
           (buf, do_item_deref it
                   (ITEM_update it (do_try_item_stamp (current_time s1) client)
                     (do_item_update it
                       (ITEM_update it (item_memcpy_to 0 buf res)
                         (ITEM_update it (ITEM_set_nbytes res) s1))))))"
proof -
  let ?s1 = "ITEM_update it (\<lambda>i. i\<lparr>it_refcount := it_refcount i + 1\<rparr>) s"
  have v: "item_strtoul (items ?s1 it) = item_strtoul (items s it)"
    by simp
  show ?thesis
    by (simp only: do_add_delta_def get_live [OF assms] add_delta_value_def Let_def
          prod.case option.case v)
qed

lemma do_add_delta_in_place:
  assumes "key_live s key it"
    and "\<not> (need_realloc ((items s it)\<lparr>it_refcount := it_refcount (items s it) + 1\<rparr>)
               (length (decimal (unat (add_delta_value incr (item_strtoul (items s it)) delta))))
            \<or> 0 < it_refcount (items s it))"
    and "do_add_delta key incr delta client need_realloc alloc s = (reply, s')"
  shows "reply = decimal (unat (add_delta_value incr (item_strtoul (items s it)) delta))"
    and "assoc s' key = Some it"
    and "it_data (items s' it) = reply"
    and "it_linked (items s it) \<longrightarrow> hd (lru s') = it"
  using assms(2,3) assms(1) unfolding do_add_delta_live [OF assms(1)] Let_def
  by (auto simp: key_live_def)

lemma do_add_delta_no_memory:
  assumes "key_live s key it"
    and "need_realloc ((items s it)\<lparr>it_refcount := it_refcount (items s it) + 1\<rparr>)
               (length (decimal (unat (add_delta_value incr (item_strtoul (items s it)) delta))))
            \<or> 0 < it_refcount (items s it)"
    and "snd alloc = None"
    and "do_add_delta key incr delta client need_realloc alloc s = (reply, s')"
  shows "reply = ''SERVER_ERROR out of memory''"
    and "it_data (items s' it) = it_data (items s it)"
  using assms(2,3,4) unfolding do_add_delta_live [OF assms(1)] Let_def
  by (auto simp: do_item_alloc_def fold_unlink_data)

lemma do_add_delta_moved:
  assumes "key_live s key it"
    and "need_realloc ((items s it)\<lparr>it_refcount := it_refcount (items s it) + 1\<rparr>)
               (length (decimal (unat (add_delta_value incr (item_strtoul (items s it)) delta))))
            \<or> 0 < it_refcount (items s it)"
    and "snd alloc = Some a" and "a \<noteq> it"
    and "do_add_delta key incr delta client need_realloc alloc s = (reply, s')"
  shows "reply = decimal (unat (add_delta_value incr (item_strtoul (items s it)) delta))"
    and "assoc s' key = Some a"
    and "it_data (items s' a) = reply"
    and "hd (lru s') = a"
  using assms(2,3,4,5) unfolding do_add_delta_live [OF assms(1)] Let_def
  by (auto simp: do_item_alloc_def do_item_replace_def do_item_unlink_fields
        item_memcpy_to_def memcpy_at_all Let_def)

lemma of_char_digit_char: "n < 10 \<Longrightarrow> (of_char (digit_char n) :: nat) = 48 + n"
proof -
  assume "n < 10"
  then have "n \<in> {0, 1, 2, 3, 4, 5, 6, 7, 8, 9}" by auto
  then show ?thesis by (auto simp: digit_char_def)
qed

lemma digits_value_decimal:
  "digits_value acc (decimal n @ cs) = digits_value (acc * 10 ^ length (decimal n) + n) cs"
proof (induction n arbitrary: acc cs rule: decimal.induct)
  case (1 n)
  show ?case
  proof (cases "n < 10")
    case True
    then show ?thesis
      by (subst (1 2) decimal.simps) (simp add: is_digit_def of_char_digit_char)
  next
    case False
    have m: "n mod 10 < 10" by simp
    have "digits_value acc (decimal n @ cs) =
        digits_value acc (decimal (n div 10) @ (digit_char (n mod 10) # cs))"
      using False by (subst decimal.simps) simp
    also have "\<dots> = digits_value (acc * 10 ^ length (decimal (n div 10)) + n div 10)
        (digit_char (n mod 10) # cs)"
      by (rule "1.IH" [OF False])
    also have "\<dots> = digits_value
        ((acc * 10 ^ length (decimal (n div 10)) + n div 10) * 10 + n mod 10) cs"
    proof -
      have d: "is_digit (digit_char (n mod 10))"
        unfolding is_digit_def of_char_digit_char [OF m] using m by linarith
      have e: "(of_char (digit_char (n mod 10)) :: nat) - 48 = n mod 10"
        unfolding of_char_digit_char [OF m] by simp
      show ?thesis by (simp only: digits_value.simps d e if_True)
    qed
    also have "(acc * 10 ^ length (decimal (n div 10)) + n div 10) * 10 + n mod 10
        = acc * 10 ^ length (decimal n) + n"
    proof -
      have "length (decimal n) = Suc (length (decimal (n div 10)))"
        using False by (subst decimal.simps) simp
      then show ?thesis by (simp add: algebra_simps)
    qed
    finally show ?thesis .
  qed
qed

lemma digits_value_decimal0: "digits_value 0 (decimal n) = n"
  using digits_value_decimal [of 0 n "[]"] by simp

lemma item_strtoul_decimal:
  "it_data i = decimal (unat (w :: 32 word)) \<Longrightarrow> item_strtoul i = w"
proof -
  assume d: "it_data i = decimal (unat w)"
  have "unat w < 2 ^ 32" using unsigned_less [of w, where 'a = nat] by simp
  then have "min (unat w) (2 ^ 32 - 1) = unat w" by simp
  then show ?thesis by (simp add: item_strtoul_def d digits_value_decimal0)
qed

lemma do_add_delta_outcome:
  assumes live: "key_live s key it"
    and fresh: "snd alloc \<noteq> Some it"
    and run: "do_add_delta key incr delta client need_realloc alloc s = (reply, s')"
    and m: "m = unat (add_delta_value incr (item_strtoul (items s it)) delta)"
  shows "((need_realloc ((items s it)\<lparr>it_refcount := it_refcount (items s it) + 1\<rparr>)
               (length (decimal m)) \<or> 0 < it_refcount (items s it)) \<and> snd alloc = None \<longrightarrow>
           reply = ''SERVER_ERROR out of memory'' \<and>
           it_data (items s' it) = it_data (items s it)) \<and>
         (\<not> ((need_realloc ((items s it)\<lparr>it_refcount := it_refcount (items s it) + 1\<rparr>)
               (length (decimal m)) \<or> 0 < it_refcount (items s it)) \<and> snd alloc = None) \<longrightarrow>
           reply = decimal m \<and>
           (\<exists>a. assoc s' key = Some a \<and> it_data (items s' a) = decimal m \<and>
                unat (item_strtoul (items s' a)) = m))"
  (is "(?moved \<and> _ \<longrightarrow> _) \<and> _")
proof (cases ?moved)
  case False
  from do_add_delta_in_place [OF live False [unfolded m] run]
  show ?thesis using False unfolding m by (auto dest: item_strtoul_decimal)
next
  case True
  show ?thesis
  proof (cases "snd alloc")
    case None
    from do_add_delta_no_memory [OF live True [unfolded m] None run]
    show ?thesis using True None by simp
  next
    case (Some a)
    then have "a \<noteq> it" using fresh by simp
    from do_add_delta_moved [OF live True [unfolded m] Some this run]
    show ?thesis using Some unfolding m by (auto dest: item_strtoul_decimal)
  qed
qed


lemma unat_incr:
  "incr \<noteq> 0 \<Longrightarrow> unat (add_delta_value incr v d) = (unat v + unat d) mod 2 ^ 32"
  by (simp add: add_delta_value_def unat_word_ariths)



text \<open>
  Claim C4, as amended.  An incr on a key whose live item parses to \<open>v\<close>, with delta
  \<open>d\<close>, computes \<open>m = (v + d) mod 2 ^ 32\<close>: the sum when it is below \<open>2 ^ 32\<close>, and
  the sum wrapped around otherwise (the addition is one of \<^verbatim>\<open>uint32_t\<close> and nothing
  checks it).  The reply is the decimal rendering of \<open>m\<close>, the key then holds that
  rendering and it parses to \<open>m\<close> again; the one other outcome is the failure of the
  allocator, as for decr.
\<close>

theorem incr_wraps_around:
  assumes "key_live s key it" and "snd alloc \<noteq> Some it" and "incr \<noteq> 0"
    and "do_add_delta key incr delta client need_realloc alloc s = (reply, s')"
  shows
    "(let v = item_strtoul (items s it);
          m = (unat v + unat delta) mod 2 ^ 32;
          no_memory =
            ((need_realloc ((items s it)\<lparr>it_refcount := it_refcount (items s it) + 1\<rparr>)
                (length (decimal m)) \<or> 0 < it_refcount (items s it)) \<and> snd alloc = None)
      in (unat v + unat delta < 2 ^ 32 \<longrightarrow> m = unat v + unat delta) \<and>
         (no_memory \<longrightarrow>
            reply = ''SERVER_ERROR out of memory'' \<and>
            it_data (items s' it) = it_data (items s it)) \<and>
         (\<not> no_memory \<longrightarrow>
            reply = decimal m \<and>
            (\<exists>a. assoc s' key = Some a \<and> it_data (items s' a) = decimal m \<and>
                 unat (item_strtoul (items s' a)) = m)))"
proof -
  have z: "unat (item_strtoul (items s it)) + unat delta < 2 ^ 32 \<longrightarrow>
      (unat (item_strtoul (items s it)) + unat delta) mod 2 ^ 32
        = unat (item_strtoul (items s it)) + unat delta"
    by simp
  show ?thesis
    unfolding Let_def
    using do_add_delta_outcome [OF assms(1,2,4) unat_incr [OF assms(3), symmetric]] z
    by blast
qed

theorem incr_wraps_around_witness:
  "fst (do_add_delta ''k'' 1 3 0 no_realloc ([], Some 3) cache0) = ''10''"
proof -
  have live: "key_live cache0 ''k'' 1"
    by (simp add: key_live_def cache0_def item0_def item_expired_def)
  have v: "item_strtoul (items cache0 1) = 7"
    by (simp add: item_strtoul_def cache0_def item0_def is_digit_def)
  have d: "decimal 10 = ''10''"
    by (simp add: decimal.simps digit_char_def)
  have r: "0 < it_refcount (items cache0 1)"
    by (simp add: cache0_def item0_def)
  show ?thesis
    using incr_wraps_around [OF live _ _ surjective_pairing,
        where alloc = "([], Some 3)" and incr = 1 and delta = 3 and client = 0
          and need_realloc = no_realloc] r v
    by (auto simp: d Let_def)
qed

text \<open>
  Claim C4 as stated fails: the key holds 4294967295, the largest value, and
  \<^verbatim>\<open>incr k 1\<close> replies 0, not the saturated 4294967295.
\<close>

theorem incr_saturates_counterexample:
  "item_strtoul (items cache2 1) = 4294967295 \<and>
   fst (do_add_delta ''k'' 1 1 0 no_realloc ([], Some 3) cache2) = ''0'' \<and>
   fst (do_add_delta ''k'' 1 1 0 no_realloc ([], Some 3) cache2) \<noteq> ''4294967295''"
proof -
  have live: "key_live cache2 ''k'' 1"
    by (simp add: key_live_def cache2_def cache0_def item0_def item_expired_def)
  have v: "item_strtoul (items cache2 1) = 4294967295"
    by (simp add: item_strtoul_def cache2_def cache0_def item0_def is_digit_def)
  have d: "decimal 0 = ''0''"
    by (simp add: decimal.simps digit_char_def)
  have r: "0 < it_refcount (items cache2 1)"
    by (simp add: cache2_def cache0_def item0_def)
  have "fst (do_add_delta ''k'' 1 1 0 no_realloc ([], Some 3) cache2) = ''0''"
    using do_add_delta_moved(1) [OF live _ _ _ surjective_pairing,
        where alloc = "([], Some 3)" and incr = 1 and delta = 1 and client = 0
          and need_realloc = no_realloc and a = 3] r v
    by (simp add: d add_delta_value_def)
  then show ?thesis using v by simp
qed

section \<open>Properties of sending\<close>

lemma same_conn_refl [simp]: "same_conn c c"
  by (simp add: same_conn_def)

lemma same_conn_trans: "same_conn a b \<Longrightarrow> same_conn b c \<Longrightarrow> same_conn a c"
  by (simp add: same_conn_def)

lemma same_conn_pool_request: "same_conn c (snd (pool_request c))"
  by (simp add: pool_request_def same_conn_def split: list.splits)

lemma same_conn_ensure_iov_space: "same_conn c (snd (ensure_iov_space L c))"
  by (simp add: ensure_iov_space_def pool_request_def same_conn_def Let_def split: list.splits)

lemma same_conn_add_iov_fragment:
  "same_conn c (fst (snd (add_iov_fragment L lim buf len st c)))"
  using same_conn_ensure_iov_space [of c L]
  by (cases "ensure_iov_space L c") (simp add: add_iov_fragment_def Let_def same_conn_def)

lemma same_conn_add_msghdr: "same_conn c (snd (add_msghdr L c))"
proof -
  obtain grown c1 where g:
    "(if msgsize c = msgused c then
        (case pool_request c of (ok, c') \<Rightarrow>
           if ok then (True, c'\<lparr>msgsize := msgsize c' * 2\<rparr>) else (False, c'))
      else (True, c)) = (grown, c1)"
    by (cases "(if msgsize c = msgused c then
        (case pool_request c of (ok, c') \<Rightarrow>
           if ok then (True, c'\<lparr>msgsize := msgsize c' * 2\<rparr>) else (False, c'))
      else (True, c))")
  have r1: "same_conn c c1"
    using g same_conn_pool_request [of c]
    by (auto simp: same_conn_def split: if_splits prod.splits)
  let ?c2 = "c1\<lparr>msglist := (msglist c1)
      (msgused c1 := \<lparr>msg_iov = [], msg_flags = 0, msg_controllen = 0\<rparr>)\<rparr>"
  obtain rc c3 where e: "ensure_iov_space L ?c2 = (rc, c3)"
    by (cases "ensure_iov_space L ?c2")
  have r3: "same_conn c c3"
    using same_conn_ensure_iov_space [of ?c2 L] r1 e by (simp add: same_conn_def)
  let ?c4 = "c3\<lparr>msgbytes := 0, msgused := msgused c3 + 1\<rparr>"
  have r4: "same_conn c ?c4" using r3 by (simp add: same_conn_def)
  obtain rc' c5 lo b where f:
    "add_iov_fragment L True None UDP_HEADER_SIZE False ?c4 = (rc', c5, lo, b)"
    by (cases "add_iov_fragment L True None UDP_HEADER_SIZE False ?c4")
  have r5: "same_conn c c5"
    using same_conn_add_iov_fragment [of ?c4 L True None UDP_HEADER_SIZE False] f r4
    by (simp add: same_conn_def)
  have "snd (add_msghdr L c) = c1 \<or> snd (add_msghdr L c) = c3 \<or>
      snd (add_msghdr L c) = ?c4 \<or> snd (add_msghdr L c) = c5"
    unfolding add_msghdr_def g prod.case e f by simp
  then show ?thesis using r1 r3 r4 r5 by auto
qed

lemma add_iov_unfold:
  assumes "lim = (udp c \<or> msgused c = 1)"
    and "c1 = (if length (msg_iov (msglist c (msgused c - 1))) = IOV_MAX L \<or>
                   (lim \<and> msgbytes c \<ge> UDP_MAX_PAYLOAD_SIZE)
                then snd (add_msghdr L c) else c)"
    and "add_iov_fragment L lim buf len st c1 = (rc, c2, lo, b)"
  shows "add_iov L buf len st c =
      (if rc \<noteq> 0 then (-1, c2) else if lo > 0 then add_iov L b lo False c2 else (0, c2))"
  apply (subst add_iov.simps)
  apply (simp only: Let_def assms(1) [symmetric])
  apply (simp only: assms(2) [symmetric] assms(3) prod.case)
  done

lemma same_conn_add_iov: "same_conn c (snd (add_iov L buf len st c))"
proof (induction L buf len st c rule: add_iov.induct)
  case (1 L buf len is_start c)
  define lim where "lim = (udp c \<or> msgused c = 1)"
  define c1 where "c1 = (if length (msg_iov (msglist c (msgused c - 1))) = IOV_MAX L \<or>
                   (lim \<and> msgbytes c \<ge> UDP_MAX_PAYLOAD_SIZE)
                then snd (add_msghdr L c) else c)"
  obtain rc c2 lo b where f: "add_iov_fragment L lim buf len is_start c1 = (rc, c2, lo, b)"
    by (cases "add_iov_fragment L lim buf len is_start c1")
  have s1: "same_conn c c1"
    using same_conn_add_msghdr [of c L] by (simp add: c1_def)
  have s2: "same_conn c c2"
    using same_conn_add_iov_fragment [of c1 L lim buf len is_start] f s1
    by (simp add: same_conn_def)
  note e = add_iov_unfold [OF lim_def c1_def f]
  show ?case
  proof (cases "rc = 0 \<and> lo > 0")
    case True
    have "same_conn c2 (snd (add_iov L b lo False c2))"
      using "1.IH" [OF lim_def c1_def f [symmetric] refl refl] True by simp
    then show ?thesis using e True s2 by (auto intro: same_conn_trans)
  next
    case False
    then show ?thesis using e s2 by auto
  qed
qed

lemma same_conn_build_udp_headers: "same_conn c (snd (build_udp_headers c))"
proof -
  have h: "same_conn c (fold build_udp_header_at is c)" for "is" c
  proof (induction "is" arbitrary: c)
    case Nil
    show ?case by simp
  next
    case (Cons i "is")
    have "same_conn c (build_udp_header_at i c)"
      by (simp add: build_udp_header_at_def Let_def same_conn_def)
    then show ?case using Cons [of "build_udp_header_at i c"]
      by (auto intro: same_conn_trans)
  qed
  obtain ok c1 where g:
    "(if msgused c > hdrsize c then
        (case pool_request c of (ok, c') \<Rightarrow>
           if ok then (True, c'\<lparr>hdrbuf := True, hdrsize := msgused c' * 2\<rparr>)
           else (False, c'))
      else (True, c)) = (ok, c1)"
    by (cases "(if msgused c > hdrsize c then
        (case pool_request c of (ok, c') \<Rightarrow>
           if ok then (True, c'\<lparr>hdrbuf := True, hdrsize := msgused c' * 2\<rparr>)
           else (False, c'))
      else (True, c))")
  have r1: "same_conn c c1"
    using g by (auto simp: pool_request_def same_conn_def split: if_splits list.splits)
  have "snd (build_udp_headers c) = c1 \<or>
      snd (build_udp_headers c) = fold build_udp_header_at [0..<msgused c1] c1"
    unfolding build_udp_headers_def g by simp
  then show ?thesis using r1 h [of c1 "[0..<msgused c1]"]
    by (auto intro: same_conn_trans)
qed

lemma same_conn_write_setup: "same_conn c (snd (write_setup L c))"
proof -
  obtain rc1 c1 where a: "add_msghdr L c = (rc1, c1)" by (cases "add_msghdr L c")
  obtain rc2 c2 where b:
    "add_iov L (Some (drop (wcurr c1) (wbuf c1))) (wbytes c1) True c1 = (rc2, c2)"
    by (cases "add_iov L (Some (drop (wcurr c1) (wbuf c1))) (wbytes c1) True c1")
  obtain rc3 c3 where d: "build_udp_headers c2 = (rc3, c3)" by (cases "build_udp_headers c2")
  have s1: "same_conn c c1" using same_conn_add_msghdr [of c L] a by simp
  have s2: "same_conn c c2"
    using same_conn_add_iov [of c1 L "Some (drop (wcurr c1) (wbuf c1))" "wbytes c1" True] b s1
    by (auto intro: same_conn_trans)
  have s3: "same_conn c c3"
    using same_conn_build_udp_headers [of c2] d s2 by (auto intro: same_conn_trans)
  show ?thesis using s1 s2 s3 by (simp add: write_setup_def a b d)
qed

lemma transmit_hard_error:
  assumes "\<not> binary c" and "sent = Sent 0 \<or> sent = Send_error" and "pending_message c"
  shows "fst (transmit L sent ev c) = TRANSMIT_HARD_ERROR"
    and "state (snd (transmit L sent ev c)) = (if udp c then conn_read else conn_closing)"
  using assms
  by (auto simp: transmit_def transmit_failed_def pending_message_def Let_def)

lemma mwrite_hard_error:
  assumes "\<not> binary c" and "sent = Sent 0 \<or> sent = Send_error" and "pending_message c"
  shows "drive_machine_mwrite L sent ev (c, s) = ((snd (transmit L sent ev c), s), False)"
  using transmit_hard_error(1) [OF assms, of L ev]
  by (cases "transmit L sent ev c") (simp add: drive_machine_mwrite_def)

text \<open>
  Claim C9.  \<^verbatim>\<open>sendmsg\<close> returns 0, or fails with an error that is not \<^verbatim>\<open>EAGAIN\<close> or
  \<^verbatim>\<open>EWOULDBLOCK\<close>, on a connection of the text protocol that has a message to send.
  After that pass of \<^verbatim>\<open>drive_machine\<close>, in \<^verbatim>\<open>conn_mwrite\<close> and in \<^verbatim>\<open>conn_write\<close> (with
  the message already set up, or set up in this pass), a datagram connection is in
  \<^verbatim>\<open>conn_read\<close>, never in \<^verbatim>\<open>conn_closing\<close>; a stream connection is in \<^verbatim>\<open>conn_closing\<close>.
\<close>

theorem udp_transmit_failure_returns_to_read:
  assumes "\<not> binary c" and "sent = Sent 0 \<or> sent = Send_error"
  shows
    "(pending_message c \<longrightarrow>
        state (fst (fst (drive_machine_mwrite L sent ev (c, s))))
          = (if udp c then conn_read else conn_closing)) \<and>
     (iovused c \<noteq> 0 \<and> pending_message c \<longrightarrow>
        state (fst (fst (drive_machine_write L sent ev (c, s))))
          = (if udp c then conn_read else conn_closing)) \<and>
     (iovused c = 0 \<and> fst (write_setup L c) = 0 \<and> pending_message (snd (write_setup L c)) \<longrightarrow>
        state (fst (fst (drive_machine_write L sent ev (c, s))))
          = (if udp c then conn_read else conn_closing))"
proof -
  have m: "state (fst (fst (drive_machine_mwrite L sent ev (c', s))))
      = (if udp c' then conn_read else conn_closing)"
    if "\<not> binary c'" "pending_message c'" for c'
    using mwrite_hard_error [OF that(1) assms(2) that(2)]
      transmit_hard_error(2) [OF that(1) assms(2) that(2)] by simp
  have w: "same_conn c (snd (write_setup L c))" by (rule same_conn_write_setup)
  have a: "pending_message c \<longrightarrow>
        state (fst (fst (drive_machine_mwrite L sent ev (c, s))))
          = (if udp c then conn_read else conn_closing)"
    using m [OF assms(1)] by simp
  have b: "iovused c \<noteq> 0 \<and> pending_message c \<longrightarrow>
        state (fst (fst (drive_machine_write L sent ev (c, s))))
          = (if udp c then conn_read else conn_closing)"
    using m [OF assms(1)] by (simp add: drive_machine_write_def)
  have d: "iovused c = 0 \<and> fst (write_setup L c) = 0 \<and> pending_message (snd (write_setup L c)) \<longrightarrow>
        state (fst (fst (drive_machine_write L sent ev (c, s))))
          = (if udp c then conn_read else conn_closing)"
  proof (intro impI, elim conjE)
    assume h: "iovused c = 0" "fst (write_setup L c) = 0" "pending_message (snd (write_setup L c))"
    have nb: "\<not> binary (snd (write_setup L c))" using w assms(1) by (simp add: same_conn_def)
    have u: "udp (snd (write_setup L c)) = udp c" using w by (simp add: same_conn_def)
    show "state (fst (fst (drive_machine_write L sent ev (c, s))))
          = (if udp c then conn_read else conn_closing)"
      using m [OF nb h(3)] h(1,2) u
      by (cases "write_setup L c") (simp add: drive_machine_write_def)
  qed
  show ?thesis using a b d by blast
qed

theorem udp_transmit_failure_returns_to_read_witness:
  "state (fst (fst (drive_machine_mwrite limits0 Send_error (True, True) (conn1, cache0))))
     = conn_read \<and>
   state (fst (fst (drive_machine_mwrite limits0 (Sent 0) (True, True)
     (conn1\<lparr>udp := False\<rparr>, cache0)))) = conn_closing"
proof -
  have p: "pending_message conn1" "pending_message (conn1\<lparr>udp := False\<rparr>)"
    by (simp_all add: pending_message_def conn1_def conn0_def)
  have b: "\<not> binary conn1" "\<not> binary (conn1\<lparr>udp := False\<rparr>)" "udp conn1"
    by (simp_all add: conn1_def conn0_def)
  show ?thesis
    using udp_transmit_failure_returns_to_read [OF b(1), of Send_error limits0 "(True, True)" cache0]
      udp_transmit_failure_returns_to_read [OF b(2), of "Sent 0" limits0 "(True, True)" cache0]
      p b(3)
    by simp
qed

lemma of_char_less_256: "(of_char ch :: nat) < 256"
proof -
  have "of_char ch = (of_char ch :: nat) mod 256" by (simp only: of_char_mod_256)
  then show ?thesis by (metis mod_less_divisor zero_less_numeral)
qed

lemma total_is_one:
  "(of_char a :: nat) * 256 + of_char b = 1 \<longleftrightarrow> (of_char a :: nat) = 0 \<and> (of_char b :: nat) = 1"
  using of_char_less_256 [of b] by (cases "(of_char a :: nat) = 0") auto

section \<open>Properties of reading a datagram\<close>

lemma try_read_udp_have_buffer:
  assumes "rbuf c = Some b" and "length b = nat (rsize c)" and "rbytes c = 0"
    and "d = take (nat (rsize c)) dgram" and "8 < length d"
  shows "try_read_udp L bp (Read_bytes dgram) c =
     (if (of_char (d ! 4) :: nat) \<noteq> 0 \<or> (of_char (d ! 5) :: nat) \<noteq> 1 then
        (0, if binary c
            then bp ''multi-packet request not supported''
                   (c\<lparr>rbuf := Some (memcpy_at b 0 d),
                      request_id := of_char (d ! 0) * 256 + of_char (d ! 1)\<rparr>)
            else out_string L ''SERVER_ERROR multi-packet request not supported''
                   (c\<lparr>rbuf := Some (memcpy_at b 0 d),
                      request_id := of_char (d ! 0) * 256 + of_char (d ! 1)\<rparr>))
      else
        (1, c\<lparr>rbuf := Some (memcpy_at (memcpy_at b 0 d) 0
                       (take (length d - 8) (drop 8 (memcpy_at b 0 d)))),
               request_id := of_char (d ! 0) * 256 + of_char (d ! 1),
               rbytes := int (length d) - 8, rcurr := 0\<rparr>))"
  using assms by (simp add: try_read_udp_def Let_def)

lemma command_input_after_strip:
  assumes "length d \<le> length b" and "8 < length d"
  shows "take (length d - 8)
           (memcpy_at (memcpy_at b 0 d) 0 (take (length d - 8) (drop 8 (memcpy_at b 0 d))))
         = drop 8 d"
  using assms by (simp add: memcpy_at_def)

lemma try_read_udp_new_buffer:
  assumes "rbuf c = None" and "pool c = True # p"
  shows "try_read_udp L bp dgram c =
     try_read_udp L bp dgram
       (c\<lparr>pool := p, rbuf := Some (replicate (nat (CONN_BUFFER_DATA_SZ L)) (CHR 0x00)),
          rcurr := 0, rsize := CONN_BUFFER_DATA_SZ L\<rparr>)"
  using assms by (simp add: try_read_udp_def pool_request_def)

lemma try_read_udp_outcome:
  assumes nb: "\<not> binary c" and rb: "rbytes c = 0" and ws: "49 \<le> wsize c"
    and buf: "rbuf c = Some b" "length b = nat (rsize c)"
    and d: "d = take (nat (rsize c)) dgram" "8 < length d"
    and run: "try_read_udp L bp (Read_bytes dgram) c = (r, c')"
  shows "((of_char (d ! 4) :: nat) * 256 + of_char (d ! 5) \<noteq> 1 \<longrightarrow>
            r = 0 \<and>
            pending_reply c' = ''SERVER_ERROR multi-packet request not supported'' @ CRLF \<and>
            state c' = conn_write \<and> write_and_go c' = conn_read \<and>
            rbytes c' = 0 \<and> command_input c' = []) \<and>
         ((of_char (d ! 4) :: nat) * 256 + of_char (d ! 5) = 1 \<longrightarrow>
            r = 1 \<and> command_input c' = drop 8 d \<and> rbytes c' = int (length d) - 8 \<and>
            rcurr c' = 0 \<and> state c' = state c) \<and>
         request_id c' = of_char (d ! 0) * 256 + of_char (d ! 1)"
proof -
  note e = try_read_udp_have_buffer [OF buf rb d, of L bp]
  have len: "length d \<le> length b" using d(1) buf(2) by simp
  let ?c1 = "c\<lparr>rbuf := Some (memcpy_at b 0 d),
                request_id := of_char (d ! 0) * 256 + of_char (d ! 1)\<rparr>"
  show ?thesis
  proof (cases "(of_char (d ! 4) :: nat) * 256 + of_char (d ! 5) = 1")
    case True
    then have t: "(of_char (d ! 4) :: nat) = 0 \<and> (of_char (d ! 5) :: nat) = 1"
      by (simp only: total_is_one)
    have "c' = c\<lparr>rbuf := Some (memcpy_at (memcpy_at b 0 d) 0
                       (take (length d - 8) (drop 8 (memcpy_at b 0 d)))),
               request_id := of_char (d ! 0) * 256 + of_char (d ! 1),
               rbytes := int (length d) - 8, rcurr := 0\<rparr>" "r = 1"
      using run t unfolding e by simp_all
    moreover have "nat (int (length d) - 8) = length d - 8" by simp
    ultimately show ?thesis
      using True command_input_after_strip [OF len d(2)]
      by (simp add: command_input_def del: of_nat_diff)
  next
    case False
    then have t: "(of_char (d ! 4) :: nat) \<noteq> 0 \<or> (of_char (d ! 5) :: nat) \<noteq> 1"
      by (simp only: total_is_one) simp
    have c': "c' = out_string L ''SERVER_ERROR multi-packet request not supported'' ?c1"
      and "r = 0"
      using run t nb unfolding e by auto
    have w: "length ''SERVER_ERROR multi-packet request not supported'' + 2 \<le> wsize ?c1"
      using ws by simp
    have "pending_reply c' = ''SERVER_ERROR multi-packet request not supported'' @ CRLF"
      unfolding c' by (rule pending_reply_out_string [OF w])
    moreover have "rbytes c' = 0" "request_id c' = of_char (d ! 0) * 256 + of_char (d ! 1)"
      "state c' = conn_write" "write_and_go c' = conn_read"
      unfolding c' using rb by (simp_all add: out_string_eq Let_def)
    ultimately show ?thesis using False \<open>r = 0\<close> by (simp add: command_input_def split: option.splits)
  qed
qed

text \<open>
  Claim C7.  A datagram connection of the text protocol receives a datagram of more
  than 8 bytes (\<open>d\<close>, cut to the size of the read buffer, which is there or is granted
  by the pool).  If the field of bytes 4 and 5 is not 1, \<^verbatim>\<open>try_read_udp\<close> returns 0, the
  reply is \<^verbatim>\<open>SERVER_ERROR multi-packet request not supported\<close> and no byte of the
  datagram becomes command input.  If it is 1, \<^verbatim>\<open>try_read_udp\<close> returns 1 and the
  command input is the datagram without its first 8 bytes.  In both cases the request
  id is the number in bytes 0 and 1.
\<close>

theorem udp_request_must_be_single_datagram:
  assumes "\<not> binary c" and "rbytes c = 0" and "49 \<le> wsize c"
    and "(rbuf c = Some b \<and> length b = nat (rsize c) \<and> rsz = rsize c) \<or>
         (rbuf c = None \<and> (\<exists>p. pool c = True # p) \<and> rsz = CONN_BUFFER_DATA_SZ L)"
    and "d = take (nat rsz) dgram" and "8 < length d"
    and "try_read_udp L bp (Read_bytes dgram) c = (r, c')"
  shows "((of_char (d ! 4) :: nat) * 256 + of_char (d ! 5) \<noteq> 1 \<longrightarrow>
            r = 0 \<and>
            pending_reply c' = ''SERVER_ERROR multi-packet request not supported'' @ CRLF \<and>
            state c' = conn_write \<and> write_and_go c' = conn_read \<and>
            rbytes c' = 0 \<and> command_input c' = []) \<and>
         ((of_char (d ! 4) :: nat) * 256 + of_char (d ! 5) = 1 \<longrightarrow>
            r = 1 \<and> command_input c' = drop 8 d \<and> rbytes c' = int (length d) - 8 \<and>
            rcurr c' = 0 \<and> state c' = state c) \<and>
         request_id c' = of_char (d ! 0) * 256 + of_char (d ! 1)"
proof -
  from assms(4) show ?thesis
  proof (elim disjE conjE exE)
    assume "rbuf c = Some b" "length b = nat (rsize c)" "rsz = rsize c"
    then show ?thesis
      using try_read_udp_outcome [OF assms(1,2,3) _ _ _ assms(6,7)] assms(5) by simp
  next
    fix p
    assume h: "rbuf c = None" "pool c = True # p" "rsz = CONN_BUFFER_DATA_SZ L"
    let ?c = "c\<lparr>pool := p, rbuf := Some (replicate (nat (CONN_BUFFER_DATA_SZ L)) (CHR 0x00)),
          rcurr := 0, rsize := CONN_BUFFER_DATA_SZ L\<rparr>"
    have run: "try_read_udp L bp (Read_bytes dgram) ?c = (r, c')"
      using assms(7) try_read_udp_new_buffer [OF h(1,2)] by simp
    have "state ?c = state c" by simp
    then show ?thesis
      using try_read_udp_outcome [of ?c, OF _ _ _ _ _ _ assms(6) run] assms(1,2,3,5) h(3)
      by simp
  qed
qed

theorem udp_request_must_be_single_datagram_witness:
  "fst (try_read_udp limits0 bp_none (Read_bytes (dgram1 1)) conn2) = 1 \<and>
   command_input (snd (try_read_udp limits0 bp_none (Read_bytes (dgram1 1)) conn2))
     = ''get k'' @ CRLF \<and>
   fst (try_read_udp limits0 bp_none (Read_bytes (dgram1 2)) conn2) = 0 \<and>
   pending_reply (snd (try_read_udp limits0 bp_none (Read_bytes (dgram1 2)) conn2))
     = ''SERVER_ERROR multi-packet request not supported'' @ CRLF"
proof -
  have c: "\<not> binary conn2" "rbytes conn2 = 0" "49 \<le> wsize conn2"
    "(rbuf conn2 = Some [] \<and> length ([] :: string) = nat (rsize conn2) \<and>
        CONN_BUFFER_DATA_SZ limits0 = rsize conn2) \<or>
     (rbuf conn2 = None \<and> (\<exists>p. pool conn2 = True # p) \<and>
        CONN_BUFFER_DATA_SZ limits0 = CONN_BUFFER_DATA_SZ limits0)"
    by (simp_all add: conn2_def conn0_def)
  have t: "dgram1 n = take (nat (CONN_BUFFER_DATA_SZ limits0)) (dgram1 n)" for n
    by (simp add: dgram1_def limits0_def)
  have l: "8 < length (dgram1 n)" for n
    by (simp add: dgram1_def)
  have b1: "(of_char (dgram1 1 ! 4) :: nat) * 256 + of_char (dgram1 1 ! 5) = 1"
    "drop 8 (dgram1 1) = ''get k'' @ CRLF"
    by (simp_all add: dgram1_def)
  have b2: "(of_char (dgram1 2 ! 4) :: nat) * 256 + of_char (dgram1 2 ! 5) \<noteq> 1"
    by (simp add: dgram1_def)
  show ?thesis
    using udp_request_must_be_single_datagram [OF c t [of 1] l surjective_pairing,
        where bp = bp_none]
      udp_request_must_be_single_datagram [OF c t [of 2] l surjective_pairing,
        where bp = bp_none] b1 b2
    by simp
qed

section \<open>Properties of datagram responses\<close>

lemma ensure_iov_space_msgs:
  "ensure_iov_space L c = (rc, c1) \<Longrightarrow>
   udp c1 = udp c \<and> msglist c1 = msglist c \<and> msgused c1 = msgused c \<and>
   msgbytes c1 = msgbytes c \<and> msgsize c1 = msgsize c"
  by (auto simp: ensure_iov_space_def pool_request_def Let_def split: if_splits list.splits)

lemma udp_msgs_ok_transfer:
  "udp_msgs_ok c \<Longrightarrow> udp c1 = udp c \<Longrightarrow> msglist c1 = msglist c \<Longrightarrow>
   msgused c1 = msgused c \<Longrightarrow> msgbytes c1 = msgbytes c \<Longrightarrow> udp_msgs_ok c1"
  by (simp add: udp_msgs_ok_def)

lemma msghdr_append_iov [simp]: "msg_iov (msghdr_append mark v m) = msg_iov m @ [v]"
  by (simp add: msghdr_append_def)

lemma add_iov_fragment_failure:
  "ensure_iov_space L c = (rc, c1) \<Longrightarrow> rc \<noteq> 0 \<Longrightarrow>
   add_iov_fragment L lim buf len st c = (-1, c1, len, buf)"
  by (simp add: add_iov_fragment_def)

lemma add_iov_fragment_success:
  assumes "ensure_iov_space L c = (0, c1)"
  shows "add_iov_fragment L lim buf len st c =
       (0, c1\<lparr>msglist := (msglist c1)(msgused c1 - 1 :=
                 msghdr_append (udp c1 \<and> st)
                   \<lparr>iov_base = map_option (take (len - fragment_cut lim len c1)) buf,
                    iov_len = len - fragment_cut lim len c1\<rparr>
                   (msglist c1 (msgused c1 - 1))),
              msgbytes := msgbytes c1 + (len - fragment_cut lim len c1),
              iovused := iovused c1 + 1\<rparr>,
        fragment_cut lim len c1,
        map_option (drop (len - fragment_cut lim len c1)) buf)"
  by (simp add: add_iov_fragment_def assms)

lemma udp_msgs_ok_append:
  assumes ok: "udp_msgs_ok c1" and pos: "0 < msgused c1"
    and fit: "msgbytes c1 + n \<le> UDP_MAX_PAYLOAD_SIZE"
    and m2: "msg_iov m2 = msg_iov (msglist c1 (msgused c1 - 1)) @ [v]" "iov_len v = n"
    and c2: "udp c2" "msgused c2 = msgused c1" "msgbytes c2 = msgbytes c1 + n"
      "msglist c2 = (msglist c1)(msgused c1 - 1 := m2)"
  shows "udp_msgs_ok c2"
proof -
  define i where "i = msgused c1 - 1"
  have i: "i < msgused c1" using pos by (simp add: i_def)
  have mb: "msgbytes c1 = msg_total (msglist c1 i)"
    using ok pos by (simp add: udp_msgs_ok_def i_def)
  have t2: "msg_total m2 = msg_total (msglist c1 i) + n"
    by (simp add: msg_total_def m2 i_def)
  have h1: "hdr_slot (msglist c1 i)"
    using ok i by (simp add: udp_msgs_ok_def)
  have h2: "hdr_slot m2"
    using h1 by (simp add: hdr_slot_def m2 i_def)
  have a: "msg_total (msglist c2 j) \<le> UDP_MAX_PAYLOAD_SIZE \<and> hdr_slot (msglist c2 j)"
    if "j < msgused c2" for j
  proof (cases "j = i")
    case True
    have "msglist c2 j = m2" using True by (simp add: c2(4) i_def)
    then show ?thesis using t2 h2 fit mb by simp
  next
    case False
    have "msglist c2 j = msglist c1 j" using False by (simp add: c2(4) i_def)
    moreover have "j < msgused c1" using that by (simp add: c2(2))
    ultimately show ?thesis using ok by (simp add: udp_msgs_ok_def)
  qed
  have "msglist c2 (msgused c2 - 1) = m2" by (simp add: c2(2,4))
  then have b: "msgbytes c2 = msg_total (msglist c2 (msgused c2 - 1))"
    using t2 mb by (simp add: c2(3))
  show ?thesis
    unfolding udp_msgs_ok_def using a b c2(1) by blast
qed

lemma add_iov_fragment_cases:
  assumes f: "add_iov_fragment L lim buf len st c = (rc, c2, lo, b)"
  obtains (failed) c1 r1 where "ensure_iov_space L c = (r1, c1)" "r1 \<noteq> 0" "c2 = c1" "rc = -1"
  | (appended) c1 where "ensure_iov_space L c = (0, c1)" "rc = 0"
      "lo = fragment_cut lim len c1"
      "c2 = c1\<lparr>msglist := (msglist c1)(msgused c1 - 1 :=
                 msghdr_append (udp c1 \<and> st)
                   \<lparr>iov_base = map_option (take (len - fragment_cut lim len c1)) buf,
                    iov_len = len - fragment_cut lim len c1\<rparr>
                   (msglist c1 (msgused c1 - 1))),
              msgbytes := msgbytes c1 + (len - fragment_cut lim len c1),
              iovused := iovused c1 + 1\<rparr>"
proof -
  obtain r1 c1 where e: "ensure_iov_space L c = (r1, c1)" by (cases "ensure_iov_space L c")
  show ?thesis
  proof (cases "r1 = 0")
    case False
    have "(rc, c2, lo, b) = (-1, c1, len, buf)"
      by (rule trans [OF f [symmetric] add_iov_fragment_failure [OF e False]])
    then have "c2 = c1" "rc = -1" by (simp_all only: prod.inject)
    then show ?thesis using failed [OF e False] by blast
  next
    case True
    note e0 = e [unfolded True]
    have "(rc, c2, lo, b) = (0, c1\<lparr>msglist := (msglist c1)(msgused c1 - 1 :=
                 msghdr_append (udp c1 \<and> st)
                   \<lparr>iov_base = map_option (take (len - fragment_cut lim len c1)) buf,
                    iov_len = len - fragment_cut lim len c1\<rparr>
                   (msglist c1 (msgused c1 - 1))),
              msgbytes := msgbytes c1 + (len - fragment_cut lim len c1),
              iovused := iovused c1 + 1\<rparr>,
        fragment_cut lim len c1,
        map_option (drop (len - fragment_cut lim len c1)) buf)"
      by (rule trans [OF f [symmetric] add_iov_fragment_success [OF e0]])
    then have "rc = 0" "lo = fragment_cut lim len c1"
      "c2 = c1\<lparr>msglist := (msglist c1)(msgused c1 - 1 :=
                 msghdr_append (udp c1 \<and> st)
                   \<lparr>iov_base = map_option (take (len - fragment_cut lim len c1)) buf,
                    iov_len = len - fragment_cut lim len c1\<rparr>
                   (msglist c1 (msgused c1 - 1))),
              msgbytes := msgbytes c1 + (len - fragment_cut lim len c1),
              iovused := iovused c1 + 1\<rparr>"
      by (simp_all only: prod.inject)
    then show ?thesis using appended [OF e0] by blast
  qed
qed

lemma add_iov_fragment_ok:
  assumes ok: "udp_msgs_ok c" and pos: "0 < msgused c"
    and f: "add_iov_fragment L True buf len st c = (rc, c2, lo, b)"
  shows "udp_msgs_ok c2 \<and> msgused c2 = msgused c"
  using f
proof (cases rule: add_iov_fragment_cases)
  case (failed c1 r1)
  note m = ensure_iov_space_msgs [OF failed(1)]
  have "udp_msgs_ok c1" using ok m by (blast intro: udp_msgs_ok_transfer)
  then show ?thesis using m failed(3) by simp
next
  case (appended c1)
  note m = ensure_iov_space_msgs [OF appended(1)]
  have ok1: "udp_msgs_ok c1" using ok m by (blast intro: udp_msgs_ok_transfer)
  have pos1: "0 < msgused c1" using pos m by simp
  define n where "n = len - fragment_cut True len c1"
  have le: "msgbytes c1 \<le> UDP_MAX_PAYLOAD_SIZE"
    using ok1 pos1 by (simp add: udp_msgs_ok_def)
  have fit: "msgbytes c1 + n \<le> UDP_MAX_PAYLOAD_SIZE"
    using le by (simp add: n_def fragment_cut_def)
  define v where "v = \<lparr>iov_base = map_option (take n) buf, iov_len = n\<rparr>"
  define m2 where "m2 = msghdr_append (udp c1 \<and> st) v (msglist c1 (msgused c1 - 1))"
  have c2: "c2 = c1\<lparr>msglist := (msglist c1)(msgused c1 - 1 := m2),
      msgbytes := msgbytes c1 + n, iovused := iovused c1 + 1\<rparr>"
    unfolding m2_def v_def n_def by (rule appended(4))
  have u1: "udp c2" using ok1 by (simp add: c2 udp_msgs_ok_def)
  have u2: "msgused c2 = msgused c1" by (simp add: c2)
  have u3: "msgbytes c2 = msgbytes c1 + n" by (simp add: c2)
  have u4: "msglist c2 = (msglist c1)(msgused c1 - 1 := m2)" by (simp add: c2)
  have m2v: "msg_iov m2 = msg_iov (msglist c1 (msgused c1 - 1)) @ [v]"
    by (simp add: m2_def)
  have vn: "iov_len v = n" by (simp add: v_def)
  have "udp_msgs_ok c2"
    by (rule udp_msgs_ok_append [OF ok1 pos1 fit m2v vn u1 u2 u3 u4])
  then show ?thesis using u2 m by simp
qed

lemma ensure_iov_space_again:
  assumes "ensure_iov_space L c = (0, c3)"
  shows "ensure_iov_space L (c3\<lparr>msgbytes := 0, msgused := k\<rparr>) = (0, c3\<lparr>msgbytes := 0, msgused := k\<rparr>)"
proof -
  have "iovused c3 < iovsize c3" using iov_room_ensure_iov_space [OF assms] by simp
  then show ?thesis by (simp add: ensure_iov_space_def)
qed

lemma fragment_cut_header [simp]:
  "msgbytes c = 0 \<Longrightarrow> fragment_cut lim UDP_HEADER_SIZE c = 0"
  by (simp add: fragment_cut_def UDP_HEADER_SIZE_def UDP_MAX_PAYLOAD_SIZE_def)

lemma add_msghdr_outcome:
  fixes L c
  defines "c' \<equiv> snd (add_msghdr L c)"
  shows "udp c' = udp c \<and> request_id c' = request_id c \<and>
         (\<forall>j<msgused c. msglist c' j = msglist c j) \<and>
         ((fst (add_msghdr L c) = -1 \<and> msgused c' = msgused c \<and> msgbytes c' = msgbytes c) \<or>
          (fst (add_msghdr L c) = 0 \<and> msgused c' = msgused c + 1 \<and>
           (udp c \<longrightarrow> msg_iov (msglist c' (msgused c)) = [\<lparr>iov_base = None, iov_len = UDP_HEADER_SIZE\<rparr>]
               \<and> msgbytes c' = UDP_HEADER_SIZE)))"
proof -
  obtain grown c1 where g:
    "(if msgsize c = msgused c then
        (case pool_request c of (ok, c') \<Rightarrow>
           if ok then (True, c'\<lparr>msgsize := msgsize c' * 2\<rparr>) else (False, c'))
      else (True, c)) = (grown, c1)"
    by (cases "(if msgsize c = msgused c then
        (case pool_request c of (ok, c') \<Rightarrow>
           if ok then (True, c'\<lparr>msgsize := msgsize c' * 2\<rparr>) else (False, c'))
      else (True, c))")
  have r1: "udp c1 = udp c" "request_id c1 = request_id c" "msglist c1 = msglist c"
    "msgused c1 = msgused c" "msgbytes c1 = msgbytes c"
    using g by (auto simp: pool_request_def split: if_splits list.splits)
  let ?c2 = "c1\<lparr>msglist := (msglist c1)
      (msgused c1 := \<lparr>msg_iov = [], msg_flags = 0, msg_controllen = 0\<rparr>)\<rparr>"
  obtain rc c3 where e: "ensure_iov_space L ?c2 = (rc, c3)"
    by (cases "ensure_iov_space L ?c2")
  have r3: "udp c3 = udp c" "request_id c3 = request_id c"
    "msglist c3 = (msglist c)(msgused c := \<lparr>msg_iov = [], msg_flags = 0, msg_controllen = 0\<rparr>)"
    "msgused c3 = msgused c" "msgbytes c3 = msgbytes c"
    using ensure_iov_space_msgs [OF e] same_conn_ensure_iov_space [of ?c2 L] e r1
    by (simp_all add: same_conn_def)
  let ?c4 = "c3\<lparr>msgbytes := 0, msgused := msgused c3 + 1\<rparr>"
  show ?thesis
  proof (cases "grown \<and> rc = 0")
    case False
    then have "add_msghdr L c = (-1, c1) \<or> add_msghdr L c = (-1, c3)"
      unfolding add_msghdr_def g prod.case e by auto
    then show ?thesis unfolding c'_def using r1 r3 by auto
  next
    case True
    then have e0: "ensure_iov_space L ?c2 = (0, c3)" using e by simp
    show ?thesis
    proof (cases "udp c")
      case False
      have "add_msghdr L c = (0, ?c4)"
        unfolding add_msghdr_def g prod.case e using True False r3(1) by simp
      then show ?thesis unfolding c'_def using r3 False by simp
    next
      case u: True
      note again = ensure_iov_space_again [OF e0, of "msgused c3 + 1"]
      note f = add_iov_fragment_success [OF again, of True None UDP_HEADER_SIZE False]
      have "add_msghdr L c = (0,
          ?c4\<lparr>msglist := (msglist ?c4)(msgused ?c4 - 1 :=
                 msghdr_append (udp ?c4 \<and> False)
                   \<lparr>iov_base = map_option (take (UDP_HEADER_SIZE - fragment_cut True UDP_HEADER_SIZE ?c4)) None,
                    iov_len = UDP_HEADER_SIZE - fragment_cut True UDP_HEADER_SIZE ?c4\<rparr>
                   (msglist ?c4 (msgused ?c4 - 1))),
              msgbytes := msgbytes ?c4 + (UDP_HEADER_SIZE - fragment_cut True UDP_HEADER_SIZE ?c4),
              iovused := iovused ?c4 + 1\<rparr>)"
        unfolding add_msghdr_def g prod.case e f using True u r3(1) by simp
      then show ?thesis unfolding c'_def using r3 u by simp
    qed
  qed
qed

lemma add_msghdr_ok:
  assumes ok: "udp_msgs_ok c"
  shows "udp_msgs_ok (snd (add_msghdr L c)) \<and> msgused c \<le> msgused (snd (add_msghdr L c)) \<and>
         (fst (add_msghdr L c) = 0 \<longrightarrow> 0 < msgused (snd (add_msghdr L c)))"
proof -
  define c' where "c' = snd (add_msghdr L c)"
  note o = add_msghdr_outcome [of L c, folded c'_def]
  have u: "udp c" using ok by (simp add: udp_msgs_ok_def)
  from o have "(fst (add_msghdr L c) = -1 \<and> msgused c' = msgused c \<and> msgbytes c' = msgbytes c) \<or>
          (fst (add_msghdr L c) = 0 \<and> msgused c' = msgused c + 1 \<and>
           msg_iov (msglist c' (msgused c)) = [\<lparr>iov_base = None, iov_len = UDP_HEADER_SIZE\<rparr>]
               \<and> msgbytes c' = UDP_HEADER_SIZE)"
    using u by blast
  then show ?thesis
  proof (elim disjE conjE)
    assume a: "fst (add_msghdr L c) = -1" "msgused c' = msgused c" "msgbytes c' = msgbytes c"
    have "udp_msgs_ok c'"
      unfolding udp_msgs_ok_def using ok o a by (auto simp: udp_msgs_ok_def)
    then show ?thesis using a by (simp add: c'_def)
  next
    assume a: "fst (add_msghdr L c) = 0" "msgused c' = msgused c + 1"
      "msg_iov (msglist c' (msgused c)) = [\<lparr>iov_base = None, iov_len = UDP_HEADER_SIZE\<rparr>]"
      "msgbytes c' = UDP_HEADER_SIZE"
    have n: "msg_total (msglist c' (msgused c)) = UDP_HEADER_SIZE" "hdr_slot (msglist c' (msgused c))"
      by (simp_all add: msg_total_def hdr_slot_def a(3))
    have "msg_total (msglist c' j) \<le> UDP_MAX_PAYLOAD_SIZE \<and> hdr_slot (msglist c' j)"
      if "j < msgused c'" for j
    proof (cases "j = msgused c")
      case True
      then show ?thesis using n by (simp add: UDP_HEADER_SIZE_def UDP_MAX_PAYLOAD_SIZE_def)
    next
      case False
      then have "j < msgused c" using that a(2) by simp
      then show ?thesis using ok o by (simp add: udp_msgs_ok_def)
    qed
    then have "udp_msgs_ok c'"
      unfolding udp_msgs_ok_def using o u a n by simp
    then show ?thesis using a by (simp add: c'_def)
  qed
qed

lemma add_iov_fragment_request_id:
  "request_id (fst (snd (add_iov_fragment L lim buf len st c))) = request_id c"
  using same_conn_add_iov_fragment [of c L lim buf len st] by (simp add: same_conn_def)

lemma add_iov_ok:
  "udp_msgs_ok c \<Longrightarrow> 0 < msgused c \<Longrightarrow>
   udp_msgs_ok (snd (add_iov L buf len st c)) \<and> msgused c \<le> msgused (snd (add_iov L buf len st c))"
proof (induction L buf len st c rule: add_iov.induct)
  case (1 L buf len is_start c)
  note ok = "1.prems"(1) and pos = "1.prems"(2)
  have u: "udp c" using ok by (simp add: udp_msgs_ok_def)
  define lim where "lim = (udp c \<or> msgused c = 1)"
  have lim: "lim" using u by (simp add: lim_def)
  define c1 where "c1 = (if length (msg_iov (msglist c (msgused c - 1))) = IOV_MAX L \<or>
                   (lim \<and> msgbytes c \<ge> UDP_MAX_PAYLOAD_SIZE)
                then snd (add_msghdr L c) else c)"
  obtain rc c2 lo b where f: "add_iov_fragment L lim buf len is_start c1 = (rc, c2, lo, b)"
    by (cases "add_iov_fragment L lim buf len is_start c1")
  have s1: "udp_msgs_ok c1 \<and> msgused c \<le> msgused c1"
    using add_msghdr_ok [OF ok, of L] ok by (simp add: c1_def)
  then have pos1: "0 < msgused c1" using pos by simp
  have s2: "udp_msgs_ok c2 \<and> msgused c2 = msgused c1"
    using add_iov_fragment_ok [OF conjunct1 [OF s1] pos1 f [unfolded eqTrueI [OF lim]]] .
  note e = add_iov_unfold [OF lim_def c1_def f]
  show ?case
  proof (cases "rc = 0 \<and> lo > 0")
    case True
    have "udp_msgs_ok (snd (add_iov L b lo False c2)) \<and>
        msgused c2 \<le> msgused (snd (add_iov L b lo False c2))"
      using "1.IH" [OF lim_def c1_def f [symmetric] refl refl] True s2 pos1 by simp
    then show ?thesis using e True s1 s2 by simp
  next
    case False
    then show ?thesis using e s1 s2 by auto
  qed
qed

lemma build_udp_header_at_other:
  "request_id (build_udp_header_at i c) = request_id c \<and>
   msgused (build_udp_header_at i c) = msgused c \<and>
   (j \<noteq> i \<longrightarrow> msglist (build_udp_header_at i c) j = msglist c j)"
  by (simp add: build_udp_header_at_def Let_def)

lemma build_udp_header_at_same:
  "msg_iov (msglist c i) = v # vs \<Longrightarrow>
   msg_iov (msglist (build_udp_header_at i c) i) =
     \<lparr>iov_base = Some (udp_header (request_id c) i (msgused c) (response_offset (msglist c i))),
      iov_len = UDP_HEADER_SIZE\<rparr> # vs"
  by (simp add: build_udp_header_at_def Let_def response_offset_def)

lemma fold_build_udp_header_at_other:
  "request_id (fold build_udp_header_at ks c) = request_id c \<and>
   msgused (fold build_udp_header_at ks c) = msgused c \<and>
   (j \<notin> set ks \<longrightarrow> msglist (fold build_udp_header_at ks c) j = msglist c j)"
proof (induction ks arbitrary: c)
  case Nil
  show ?case by simp
next
  case (Cons k ks)
  show ?case
    using Cons [of "build_udp_header_at k c"] build_udp_header_at_other [of k c j] by simp
qed

lemma fold_build_udp_header_at_same:
  "distinct ks \<Longrightarrow> i \<in> set ks \<Longrightarrow> msg_iov (msglist c i) = v # vs \<Longrightarrow>
   msg_iov (msglist (fold build_udp_header_at ks c) i) =
     \<lparr>iov_base = Some (udp_header (request_id c) i (msgused c) (response_offset (msglist c i))),
      iov_len = UDP_HEADER_SIZE\<rparr> # vs"
proof (induction ks arbitrary: c)
  case Nil
  then show ?case by simp
next
  case (Cons k ks)
  let ?c = "build_udp_header_at k c"
  note o = build_udp_header_at_other [of k c i]
  show ?case
  proof (cases "i = k")
    case True
    then have "i \<notin> set ks" using Cons.prems by simp
    then have "msglist (fold build_udp_header_at ks ?c) i = msglist ?c i"
      using fold_build_udp_header_at_other [of ks ?c i] by simp
    then show ?thesis using build_udp_header_at_same [OF Cons.prems(3)] True by simp
  next
    case False
    then have "i \<in> set ks" "distinct ks" using Cons.prems by simp_all
    moreover have "msg_iov (msglist ?c i) = v # vs" using o False Cons.prems(3) by simp
    ultimately show ?thesis using Cons.IH [of ?c] o False by simp
  qed
qed

lemma build_udp_headers_outcome:
  assumes b: "build_udp_headers c = (0, c')" and i: "i < msgused c"
    and m: "msg_iov (msglist c i) = v # vs"
  shows "msgused c' = msgused c \<and>
     msg_iov (msglist c' i) =
       \<lparr>iov_base = Some (udp_header (request_id c) i (msgused c) (response_offset (msglist c i))),
        iov_len = UDP_HEADER_SIZE\<rparr> # vs"
proof -
  obtain ok c1 where g:
    "(if msgused c > hdrsize c then
        (case pool_request c of (ok, c') \<Rightarrow>
           if ok then (True, c'\<lparr>hdrbuf := True, hdrsize := msgused c' * 2\<rparr>)
           else (False, c'))
      else (True, c)) = (ok, c1)"
    by (cases "(if msgused c > hdrsize c then
        (case pool_request c of (ok, c') \<Rightarrow>
           if ok then (True, c'\<lparr>hdrbuf := True, hdrsize := msgused c' * 2\<rparr>)
           else (False, c'))
      else (True, c))")
  have r1: "request_id c1 = request_id c" "msglist c1 = msglist c" "msgused c1 = msgused c"
    using g by (auto simp: pool_request_def split: if_splits list.splits)
  have c': "c' = fold build_udp_header_at [0..<msgused c1] c1"
    using b unfolding build_udp_headers_def g prod.case by (simp split: if_splits)
  have "i \<in> set [0..<msgused c1]" using i r1 by simp
  from fold_build_udp_header_at_same [OF distinct_upt this, of c1 v vs] m
    fold_build_udp_header_at_other [of "[0..<msgused c1]" c1 i]
  show ?thesis unfolding c' r1 by simp
qed

lemma add_iov_request_id: "request_id (snd (add_iov L buf len st c)) = request_id c"
  using same_conn_add_iov [of c L buf len st] by (simp add: same_conn_def)

lemma udp_response_ok:
  "udp_response L c0 c \<Longrightarrow> udp_msgs_ok c \<and> 0 < msgused c \<and> request_id c = request_id c0"
proof (induction rule: udp_response.induct)
  case (start c)
  have "udp_msgs_ok c0" using start(1,2) by (simp add: udp_msgs_ok_def)
  from add_msghdr_ok [OF this, of L] add_msghdr_outcome [of L c0]
  show ?case using start(3) by simp
next
  case (fragment c buf len is_start)
  then show ?case
    using add_iov_ok [of c L buf len is_start] add_iov_request_id [of L buf len is_start c]
    by simp
next
  case (other c c')
  then show ?case using udp_msgs_ok_transfer [of c c'] by simp
qed

lemma two_bytes: "char_of ((of_char a * 256 + of_char b :: nat) div 256) = a \<and>
    char_of ((of_char a * 256 + of_char b :: nat) mod 256) = b"
proof -
  have "(of_char b :: nat) < 256" by (rule of_char_less_256)
  then show ?thesis by simp
qed

text \<open>
  Claim C6.  A datagram response is built for a request whose first two bytes, its
  request id, are \<open>a\<close> and \<open>b\<close>, and \<^verbatim>\<open>build_udp_headers\<close> succeeds on it.  Then every
  message \<open>i\<close> of the response, which \<^verbatim>\<open>transmit\<close> sends as datagram \<open>i\<close>, begins with a
  header of 8 bytes: \<open>a\<close> and \<open>b\<close>, then \<open>i\<close>, the number of messages of the response and
  a fourth field, each as two bytes with the high byte first.  The fourth field
  holds \<open>response_offset\<close>.  What follows the header are the fragments added to the
  message; they are at most \<^verbatim>\<open>UDP_MAX_PAYLOAD_SIZE\<close> bytes, and even at most that with
  the 8 bytes of the header counted in.
\<close>

theorem udp_response_datagrams:
  assumes req: "request_id c0 = of_char a * 256 + of_char b"
    and resp: "udp_response L c0 c"
    and hdrs: "build_udp_headers c = (0, c')"
    and i: "i < msgused c'"
  shows "msg_iov (msglist c' i) =
           \<lparr>iov_base = Some [a, b, char_of (i div 256), char_of (i mod 256),
                             char_of (msgused c' div 256), char_of (msgused c' mod 256),
                             char_of (response_offset (msglist c i) div 256),
                             char_of (response_offset (msglist c i) mod 256)],
            iov_len = UDP_HEADER_SIZE\<rparr> # tl (msg_iov (msglist c i)) \<and>
         UDP_HEADER_SIZE + sum_list (map iov_len (tl (msg_iov (msglist c i))))
           \<le> UDP_MAX_PAYLOAD_SIZE \<and>
         sum_list (map iov_len (tl (msg_iov (msglist c i)))) \<le> UDP_MAX_PAYLOAD_SIZE \<and>
         msgused c' = msgused c"
proof -
  note ok = udp_response_ok [OF resp]
  have n: "msgused c' = msgused c"
  proof -
    have "0 < msgused c" using ok by simp
    then obtain v vs where "msg_iov (msglist c 0) = v # vs"
      using ok by (auto simp: udp_msgs_ok_def hdr_slot_def neq_Nil_conv)
    from build_udp_headers_outcome [OF hdrs \<open>0 < msgused c\<close> this] show ?thesis by simp
  qed
  then have i': "i < msgused c" using i by simp
  have h: "hdr_slot (msglist c i)" and t: "msg_total (msglist c i) \<le> UDP_MAX_PAYLOAD_SIZE"
    using ok i' by (simp_all add: udp_msgs_ok_def)
  obtain v vs where m: "msg_iov (msglist c i) = v # vs" and v: "iov_len v = UDP_HEADER_SIZE"
    using h by (auto simp: hdr_slot_def neq_Nil_conv)
  note o = build_udp_headers_outcome [OF hdrs i' m]
  have r: "request_id c = of_char a * 256 + of_char b" using ok req by simp
  have "UDP_HEADER_SIZE + sum_list (map iov_len vs) \<le> UDP_MAX_PAYLOAD_SIZE"
    using t v by (simp add: msg_total_def m)
  moreover have "msg_iov (msglist c' i) =
           \<lparr>iov_base = Some [a, b, char_of (i div 256), char_of (i mod 256),
                             char_of (msgused c' div 256), char_of (msgused c' mod 256),
                             char_of (response_offset (msglist c i) div 256),
                             char_of (response_offset (msglist c i) mod 256)],
            iov_len = UDP_HEADER_SIZE\<rparr> # vs"
    using o two_bytes [of a b] by (simp add: udp_header_def r n)
  ultimately show ?thesis using n by (simp add: m)
qed

theorem udp_response_datagrams_witness:
  "msg_iov (msglist (snd (build_udp_headers response3)) 0) =
     [\<lparr>iov_base = Some [CHR 0x00, CHR 0x07, CHR 0x00, CHR 0x00, CHR 0x00, CHR 0x01,
                         CHR 0x00, CHR 0x08], iov_len = 8\<rparr>,
      \<lparr>iov_base = Some (''END'' @ CRLF), iov_len = 5\<rparr>]"
proof -
  have req: "request_id conn3 = of_char (CHR 0x00) * 256 + of_char (CHR 0x07)"
    by code_simp
  have "udp conn3" "msgused conn3 = 0" "fst (add_msghdr limits0 conn3) = 0"
    by code_simp+
  then have "udp_response limits0 conn3 (snd (add_msghdr limits0 conn3))"
    by (intro udp_response.start) (simp_all add: prod_eq_iff)
  then have resp: "udp_response limits0 conn3 response3"
    unfolding response3_def by (rule udp_response.fragment)
  have "fst (build_udp_headers response3) = 0" by code_simp
  then have hdrs: "build_udp_headers response3 = (0, snd (build_udp_headers response3))"
    by (simp add: prod_eq_iff)
  have n: "msgused (snd (build_udp_headers response3)) = 1" by code_simp
  have i: "0 < msgused (snd (build_udp_headers response3))" by (simp add: n)
  have v: "response_offset (msglist response3 0) = 8"
    "tl (msg_iov (msglist response3 0)) = [\<lparr>iov_base = Some (''END'' @ CRLF), iov_len = 5\<rparr>]"
    by code_simp+
  have ch: "char_of (0 :: nat) = CHR 0x00" "char_of (Suc 0) = CHR 0x01"
    "char_of (8 :: nat) = CHR 0x08"
    by code_simp+
  show ?thesis
    using udp_response_datagrams [OF req resp hdrs i] n
    by (simp add: v ch UDP_HEADER_SIZE_def)
qed

lemma add_msghdr_calls_add_iov:
  assumes u: "udp c" and e: "msg_iov (msglist c (msgused c - 1)) = []"
    and z: "msgbytes c = 0" and m: "IOV_MAX L \<noteq> 0"
  shows "add_iov L None UDP_HEADER_SIZE False c =
     (case add_iov_fragment L True None UDP_HEADER_SIZE False c of
        (rc, c5, leftover, buf') \<Rightarrow> (rc, c5))"
proof -
  obtain rc c2 lo b where f: "add_iov_fragment L True None UDP_HEADER_SIZE False c = (rc, c2, lo, b)"
    by (cases "add_iov_fragment L True None UDP_HEADER_SIZE False c")
  have lim: "True = (udp c \<or> msgused c = 1)" using u by simp
  have c1: "c = (if length (msg_iov (msglist c (msgused c - 1))) = IOV_MAX L \<or>
                   (True \<and> msgbytes c \<ge> UDP_MAX_PAYLOAD_SIZE)
                then snd (add_msghdr L c) else c)"
    using e z m by (simp add: UDP_MAX_PAYLOAD_SIZE_def)
  note a = add_iov_unfold [OF lim c1 f]
  from f have "(rc = -1) \<or> (rc = 0 \<and> lo = 0)"
  proof (cases rule: add_iov_fragment_cases)
    case (failed c1 r1)
    then show ?thesis by simp
  next
    case (appended c1)
    have "msgbytes c1 = 0" using ensure_iov_space_msgs [OF appended(1)] z by simp
    then show ?thesis using appended(2,3) by simp
  qed
  then show ?thesis unfolding a f by auto
qed

section \<open>Properties of a failed allocation\<close>




lemma conn_set_state_closing [simp]:
  "state (conn_set_state L conn_closing c) = conn_closing"
  by (simp add: conn_set_state_def)




















end
